theory Spec2Isabelle
  imports
    Complex_Main
    "HOL-Library.Word"
    "HOL-Library.List_Lexorder"
    "HOL-Library.Option_ord"
    "HOL-Library.Multiset"
begin

section \<open>EventHub: the request handlers of server.js\<close>

text \<open>
  The application is one file, \<^verbatim>\<open>server.js\<close>: an Express server over three SQLite
  tables (users, events, registrations).  Each route handler is embedded as a function
  from the request (form body, route parameter, session) and the database to the
  response and the new database.  What the handlers take from their platform is kept
  apart from what they compute themselves:
  \<^item> \<^verbatim>\<open>String.prototype.trim\<close> and \<^verbatim>\<open>Number\<close> are written out after ECMAScript;
  \<^item> \<^verbatim>\<open>toLowerCase\<close>, \<^verbatim>\<open>bcrypt.hash\<close>, \<^verbatim>\<open>bcrypt.compare\<close> and SQLite's
    \<^verbatim>\<open>datetime()\<close> are parameters (record \<open>platform\<close>): the theorems hold for every
    choice of them;
  \<^item> the process environment and the SMTP transport are parameters too (record \<open>env\<close>).
  The column \<^verbatim>\<open>created_at\<close> of the three tables is left out: no handler reads it.
\<close>

subsection \<open>JavaScript strings\<close>

text \<open>
  A JavaScript string is a sequence of 16-bit code units.  \<open>js\<close> writes an ASCII
  literal.
\<close>

type_synonym code_unit = "16 word"
type_synonym jsstring = "code_unit list"

definition js :: "string \<Rightarrow> jsstring" where
  "js s = map of_char s"

text \<open>
  \<^verbatim>\<open>trim()\<close> removes, from both ends, the code points of ECMAScript's WhiteSpace and
  LineTerminator productions: TAB, VT, FF, SP, NBSP, ZWNBSP, the category Zs, and LF, CR,
  LS, PS.  All of them are single code units.
\<close>

definition isWhiteSpace :: "code_unit \<Rightarrow> bool" where
  "isWhiteSpace c \<longleftrightarrow>
     c \<in> {0x0009, 0x000A, 0x000B, 0x000C, 0x000D, 0x0020, 0x00A0, 0x1680,
          0x2028, 0x2029, 0x202F, 0x205F, 0x3000, 0xFEFF}
     \<or> (0x2000 \<le> c \<and> c \<le> 0x200A)"

definition trim :: "jsstring \<Rightarrow> jsstring" where
  "trim s = rev (dropWhile isWhiteSpace (rev (dropWhile isWhiteSpace s)))"

text \<open>
  A form field of \<^verbatim>\<open>req.body\<close> (parsed by \<^verbatim>\<open>express.urlencoded\<close>) is absent
  (\<^verbatim>\<open>undefined\<close>, here \<open>None\<close>) or a string.  \<^verbatim>\<open>req.body.x || ""\<close> is the string,
  and \<^verbatim>\<open>""\<close> when the field is absent or empty.  (The extended parser also builds
  arrays and objects from keys written with brackets; such bodies are not modelled.)
\<close>

type_synonym field = "jsstring option"

definition orEmpty :: "field \<Rightarrow> jsstring" where
  "orEmpty f = (case f of None \<Rightarrow> [] | Some s \<Rightarrow> s)"

text \<open>\<^verbatim>\<open>!v\<close> for a field: \<^verbatim>\<open>undefined\<close> and \<^verbatim>\<open>""\<close> are the falsy ones.\<close>

definition falsy :: "field \<Rightarrow> bool" where
  "falsy f = (case f of None \<Rightarrow> True | Some s \<Rightarrow> s = [])"

text \<open>The decimal rendering of an integer inside a template literal.\<close>

fun decimal :: "nat \<Rightarrow> jsstring" where
  "decimal n = (if n < 10 then [of_nat (48 + n)] else decimal (n div 10) @ [of_nat (48 + n mod 10)])"

declare decimal.simps [simp del]

subsection \<open>JavaScript numbers and \<^verbatim>\<open>Number(string)\<close>\<close>

text \<open>
  A Number is NaN, an infinity or a finite binary64 value, held as the rational it
  denotes (the two zeros are one value here: the handlers only compare numbers).
\<close>

datatype jsnum = NaN | PosInf | NegInf | Fin rat

definition isFinite :: "jsnum \<Rightarrow> bool" where
  "isFinite x = (case x of Fin q \<Rightarrow> True | _ \<Rightarrow> False)"

text \<open>\<^verbatim>\<open>x < c\<close> and \<^verbatim>\<open>x > c\<close> for a finite constant \<open>c\<close>; every comparison with NaN is false.\<close>

definition js_lt :: "jsnum \<Rightarrow> rat \<Rightarrow> bool" where
  "js_lt x c = (case x of NaN \<Rightarrow> False | PosInf \<Rightarrow> False | NegInf \<Rightarrow> True | Fin q \<Rightarrow> q < c)"

definition js_gt :: "jsnum \<Rightarrow> rat \<Rightarrow> bool" where
  "js_gt x c = (case x of NaN \<Rightarrow> False | PosInf \<Rightarrow> True | NegInf \<Rightarrow> False | Fin q \<Rightarrow> c < q)"

text \<open>Rounding a real to binary64, ties to even (53 bits, exponents -1022 to 1023).\<close>

definition pow2 :: "int \<Rightarrow> rat" where
  "pow2 e = (if 0 \<le> e then 2 ^ nat e else 1 / 2 ^ nat (- e))"

definition pow10 :: "int \<Rightarrow> rat" where
  "pow10 e = (if 0 \<le> e then 10 ^ nat e else 1 / 10 ^ nat (- e))"

fun bitLength :: "nat \<Rightarrow> nat" where
  "bitLength n = (if n = 0 then 0 else Suc (bitLength (n div 2)))"

declare bitLength.simps [simp del]

definition binade :: "rat \<Rightarrow> int" where
  \<comment> \<open>for \<open>0 < q\<close>: the \<open>e\<close> with \<open>2 ^ e \<le> q < 2 ^ (e + 1)\<close>\<close>
  "binade q =
     (if 1 \<le> q then int (bitLength (nat \<lfloor>q\<rfloor>)) - 1
      else if q < pow2 (1 - int (bitLength (nat \<lfloor>1 / q\<rfloor>)))
      then - int (bitLength (nat \<lfloor>1 / q\<rfloor>))
      else 1 - int (bitLength (nat \<lfloor>1 / q\<rfloor>)))"

definition roundTiesToEven :: "rat \<Rightarrow> int" where
  "roundTiesToEven q =
     (if q - of_int \<lfloor>q\<rfloor> < 1 / 2 then \<lfloor>q\<rfloor>
      else if 1 / 2 < q - of_int \<lfloor>q\<rfloor> then \<lfloor>q\<rfloor> + 1
      else if even \<lfloor>q\<rfloor> then \<lfloor>q\<rfloor>
      else \<lfloor>q\<rfloor> + 1)"

definition roundAt :: "int \<Rightarrow> rat \<Rightarrow> rat" where
  \<comment> \<open>\<open>m\<close> rounded to a multiple of the unit in the last place of the binade \<open>e\<close>\<close>
  "roundAt e m = of_int (roundTiesToEven (m / pow2 (e - 52))) * pow2 (e - 52)"

definition roundMagnitude :: "rat \<Rightarrow> rat" where
  "roundMagnitude m = roundAt (max (binade m) (- 1022)) m"

definition roundToDouble :: "rat \<Rightarrow> jsnum" where
  "roundToDouble q =
     (if q = 0 then Fin 0
      else if pow2 1024 \<le> roundMagnitude \<bar>q\<bar> then (if q < 0 then NegInf else PosInf)
      else Fin (if q < 0 then - roundMagnitude \<bar>q\<bar> else roundMagnitude \<bar>q\<bar>))"

text \<open>
  \<^verbatim>\<open>Number(s)\<close> for a string is ECMAScript's StringToNumber: the string is stripped of
  white space; the empty string is 0; otherwise it must be a StrNumericLiteral (a signed
  decimal literal with optional fraction and exponent, \<^verbatim>\<open>Infinity\<close>, or an unsigned
  binary, octal or hexadecimal integer), whose value is rounded to binary64; anything
  else is NaN.
\<close>

definition digitValue :: "code_unit \<Rightarrow> nat option" where
  "digitValue c =
     (if 0x30 \<le> c \<and> c \<le> 0x39 then Some (unat c - 48)
      else if 0x61 \<le> c \<and> c \<le> 0x66 then Some (unat c - 87)
      else if 0x41 \<le> c \<and> c \<le> 0x46 then Some (unat c - 55)
      else None)"

definition isDigitOf :: "nat \<Rightarrow> code_unit \<Rightarrow> bool" where
  "isDigitOf radix c = (case digitValue c of None \<Rightarrow> False | Some d \<Rightarrow> d < radix)"

definition digitsValue :: "nat \<Rightarrow> jsstring \<Rightarrow> nat" where
  "digitsValue radix ds =
     foldl (\<lambda>acc c. acc * radix + (case digitValue c of None \<Rightarrow> 0 | Some d \<Rightarrow> d)) 0 ds"

datatype literal = Malformed | Infinite bool | Exact rat

definition negate :: "literal \<Rightarrow> literal" where
  "negate l = (case l of Malformed \<Rightarrow> Malformed | Infinite n \<Rightarrow> Infinite (\<not> n) | Exact q \<Rightarrow> Exact (- q))"

definition ExponentPart :: "jsstring \<Rightarrow> int option" where
  \<comment> \<open>what follows the mantissa: nothing, or \<^verbatim>\<open>e\<close>/\<^verbatim>\<open>E\<close> and a signed integer\<close>
  "ExponentPart r =
     (case r of
        [] \<Rightarrow> Some 0
      | c # r' \<Rightarrow>
          if c = 0x65 \<or> c = 0x45 then
            (let (neg, ds) =
               (case r' of
                  [] \<Rightarrow> (False, [])
                | s # ds' \<Rightarrow>
                    if s = 0x2D then (True, ds') else if s = 0x2B then (False, ds') else (False, r'))
             in if ds \<noteq> [] \<and> list_all (isDigitOf 10) ds
                then Some (if neg then - int (digitsValue 10 ds) else int (digitsValue 10 ds))
                else None)
          else None)"

definition StrUnsignedDecimalLiteral :: "jsstring \<Rightarrow> literal" where
  "StrUnsignedDecimalLiteral u =
     (if u = js ''Infinity'' then Infinite False
      else
        let ip = takeWhile (isDigitOf 10) u;
            r1 = dropWhile (isDigitOf 10) u;
            (fp, r2) =
              (case r1 of
                 [] \<Rightarrow> ([], [])
               | c # r \<Rightarrow>
                   if c = 0x2E then (takeWhile (isDigitOf 10) r, dropWhile (isDigitOf 10) r)
                   else ([], r1))
        in if ip = [] \<and> fp = [] then Malformed
           else
             (case ExponentPart r2 of
                None \<Rightarrow> Malformed
              | Some e \<Rightarrow>
                  Exact ((of_nat (digitsValue 10 ip) + of_nat (digitsValue 10 fp) / 10 ^ length fp)
                         * pow10 e)))"

definition StrDecimalLiteral :: "jsstring \<Rightarrow> literal" where
  "StrDecimalLiteral t =
     (case t of
        [] \<Rightarrow> Malformed
      | c # u \<Rightarrow>
          if c = 0x2B then StrUnsignedDecimalLiteral u
          else if c = 0x2D then negate (StrUnsignedDecimalLiteral u)
          else StrUnsignedDecimalLiteral t)"

definition NonDecimalIntegerLiteral :: "jsstring \<Rightarrow> rat option" where
  "NonDecimalIntegerLiteral t =
     (case t of
        z # p # ds \<Rightarrow>
          (let radix :: nat =
                 (if p = 0x78 \<or> p = 0x58 then 16
                  else if p = 0x6F \<or> p = 0x4F then 8
                  else if p = 0x62 \<or> p = 0x42 then 2
                  else 0)
           in if z = 0x30 \<and> radix \<noteq> 0 \<and> ds \<noteq> [] \<and> list_all (isDigitOf radix) ds
              then Some (of_nat (digitsValue radix ds))
              else None)
      | _ \<Rightarrow> None)"

definition StringToNumber :: "jsstring \<Rightarrow> jsnum" where
  "StringToNumber s =
     (let t = trim s
      in if t = [] then Fin 0
         else
           (case NonDecimalIntegerLiteral t of
              Some v \<Rightarrow> roundToDouble v
            | None \<Rightarrow>
                (case StrDecimalLiteral t of
                   Malformed \<Rightarrow> NaN
                 | Infinite neg \<Rightarrow> if neg then NegInf else PosInf
                 | Exact v \<Rightarrow> roundToDouble v)))"

subsection \<open>The platform the handlers call\<close>

text \<open>
  \<^item> \<open>toLowerCase\<close>: \<^verbatim>\<open>String.prototype.toLowerCase\<close> (the Unicode case mapping);
  \<^item> \<open>bcrypt_hash\<close>: \<^verbatim>\<open>bcrypt.hash(password, rounds)\<close>, the salt it draws included;
  \<^item> \<open>bcrypt_compare\<close>: \<^verbatim>\<open>bcrypt.compare(password, hash)\<close>;
  \<^item> \<open>datetime\<close>: SQLite's \<^verbatim>\<open>datetime(text)\<close>, which is \<^verbatim>\<open>NULL\<close> (\<open>None\<close>) on a
    text it cannot read as a time and the text \<^verbatim>\<open>YYYY-MM-DD HH:MM:SS\<close> otherwise.
\<close>

record platform =
  toLowerCase :: "jsstring \<Rightarrow> jsstring"
  bcrypt_hash :: "jsstring \<Rightarrow> nat \<Rightarrow> jsstring"
  bcrypt_compare :: "jsstring \<Rightarrow> jsstring \<Rightarrow> bool"
  datetime :: "jsstring \<Rightarrow> jsstring option"

subsection \<open>The database\<close>

text \<open>
  One record per table row, the rows of a table in rowid order.  The ids are
  \<^verbatim>\<open>INTEGER PRIMARY KEY AUTOINCREMENT\<close>: a new row takes the successor of the largest
  id the table ever held, which the \<open>_seq\<close> fields keep (SQLite's
  \<^verbatim>\<open>sqlite_sequence\<close>).  The column \<^verbatim>\<open>capacity\<close> has INTEGER affinity, which
  stores a number with a fractional part as it is: the field is a rational.
\<close>

record user =
  uid :: nat
  uname :: jsstring
  uemail :: jsstring
  password_hash :: jsstring

record event =
  eid :: nat
  host_user_id :: nat
  title :: jsstring
  description :: jsstring
  location :: jsstring
  starts_at :: jsstring
  capacity :: rat

record registration =
  rid :: nat
  event_id :: nat
  user_id :: nat

record db =
  users :: "user list"
  users_seq :: nat
  events :: "event list"
  events_seq :: nat
  registrations :: "registration list"
  registrations_seq :: nat

definition empty_db :: db where
  "empty_db = \<lparr>users = [], users_seq = 0, events = [], events_seq = 0,
                registrations = [], registrations_seq = 0\<rparr>"

text \<open>
  \<^verbatim>\<open>INSERT INTO users (name, email, password_hash) VALUES (?, ?, ?)\<close>; the result is
  \<^verbatim>\<open>lastInsertRowid\<close> and the new database.  The column \<^verbatim>\<open>email\<close> is \<^verbatim>\<open>UNIQUE\<close>;
  the one handler that inserts has looked the email up just before, so the insert is
  written without the failure.
\<close>

definition insert_user :: "db \<Rightarrow> jsstring \<Rightarrow> jsstring \<Rightarrow> jsstring \<Rightarrow> nat \<times> db" where
  "insert_user d n e h =
     (let i = Suc (users_seq d)
      in (i, d\<lparr>users := users d @ [\<lparr>uid = i, uname = n, uemail = e, password_hash = h\<rparr>],
                users_seq := i\<rparr>))"

text \<open>\<^verbatim>\<open>INSERT INTO events (host_user_id, title, description, location, starts_at, capacity)\<close>.\<close>

definition insert_event ::
  "db \<Rightarrow> nat \<Rightarrow> jsstring \<Rightarrow> jsstring \<Rightarrow> jsstring \<Rightarrow> jsstring \<Rightarrow> rat \<Rightarrow> nat \<times> db" where
  "insert_event d h t ds l s c =
     (let i = Suc (events_seq d)
      in (i, d\<lparr>events := events d @
                  [\<lparr>eid = i, host_user_id = h, title = t, description = ds, location = l,
                    starts_at = s, capacity = c\<rparr>],
                events_seq := i\<rparr>))"

text \<open>
  \<^verbatim>\<open>INSERT INTO registrations (event_id, user_id) VALUES (?, ?)\<close>.  The table is
  \<^verbatim>\<open>UNIQUE(event_id, user_id)\<close>: the statement throws (\<open>None\<close>) when the pair is
  already there, and the table is as it was.
\<close>

definition registered :: "db \<Rightarrow> nat \<Rightarrow> nat \<Rightarrow> bool" where
  "registered d e u = list_ex (\<lambda>r. event_id r = e \<and> user_id r = u) (registrations d)"

definition insert_registration :: "db \<Rightarrow> nat \<Rightarrow> nat \<Rightarrow> db option" where
  "insert_registration d e u =
     (if registered d e u then None
      else let i = Suc (registrations_seq d)
           in Some (d\<lparr>registrations := registrations d @ [\<lparr>rid = i, event_id = e, user_id = u\<rparr>],
                      registrations_seq := i\<rparr>))"

text \<open>\<^verbatim>\<open>(SELECT COUNT(*) FROM registrations r WHERE r.event_id = e.id) AS reg_count\<close>.\<close>

definition reg_count_of :: "db \<Rightarrow> nat \<Rightarrow> nat" where
  "reg_count_of d e = length (filter (\<lambda>r. event_id r = e) (registrations d))"

text \<open>
  A row of \<^verbatim>\<open>SELECT e.*, u.name AS host_name, (...) AS reg_count FROM events e JOIN users u
  ON u.id = e.host_user_id\<close>.  The join is an inner join: an event whose host is no row
  of \<open>users\<close> gives no row.  (\<open>uid\<close> is a primary key: an event joins one user at most.)
\<close>

record event_row =
  ev :: event
  host_name :: jsstring
  reg_count :: nat

definition join_host :: "db \<Rightarrow> event \<Rightarrow> event_row option" where
  "join_host d e =
     (case find (\<lambda>u. uid u = host_user_id e) (users d) of
        None \<Rightarrow> None
      | Some u \<Rightarrow> Some \<lparr>ev = e, host_name = uname u, reg_count = reg_count_of d (eid e)\<rparr>)"

text \<open>
  The same query with \<^verbatim>\<open>WHERE e.id = ?\<close> and \<^verbatim>\<open>.get(id)\<close>, where \<open>id\<close> is the
  Number made of the route parameter: no integer id equals NaN, an infinity or a
  fraction.
\<close>

definition select_event :: "db \<Rightarrow> jsnum \<Rightarrow> event_row option" where
  "select_event d i =
     (case find (\<lambda>e. Fin (of_nat (eid e)) = i) (events d) of
        None \<Rightarrow> None
      | Some e \<Rightarrow> join_host d e)"

text \<open>
  The query of the front page ends \<^verbatim>\<open>ORDER BY datetime(e.starts_at) ASC\<close>: the rows are
  sorted by the text \<open>datetime\<close> makes of the stored start, \<^verbatim>\<open>NULL\<close> first and texts by
  their bytes (the texts of \<open>datetime\<close> are ASCII, where bytes and code units agree).
  SQL leaves the order of rows with equal keys open; here they stay in rowid order, and
  no property below depends on it.
\<close>

definition joined_events :: "db \<Rightarrow> event_row list" where
  "joined_events d = List.map_filter (join_host d) (events d)"

definition order_key :: "platform \<Rightarrow> event_row \<Rightarrow> jsstring option" where
  "order_key P r = datetime P (starts_at (ev r))"

definition listEvents :: "platform \<Rightarrow> db \<Rightarrow> event_row list" where
  "listEvents P d = sort_key (order_key P) (joined_events d)"

subsection \<open>Sessions and responses\<close>

text \<open>\<^verbatim>\<open>req.session.user\<close> is absent or \<^verbatim>\<open>{ id, name, email }\<close>.\<close>

record session_user =
  sid :: nat
  sname :: jsstring
  semail :: jsstring

type_synonym session = "session_user option"

text \<open>
  The texts the handlers put on a page, in the order of the source:
  \<^verbatim>\<open>"Fill all fields."\<close>, \<^verbatim>\<open>"Email already registered."\<close>,
  \<^verbatim>\<open>"Invalid email or password."\<close>, \<^verbatim>\<open>"Fill all required fields."\<close>,
  \<^verbatim>\<open>"Capacity must be 1-5000."\<close>, \<^verbatim>\<open>"Event is full."\<close>,
  \<^verbatim>\<open>"You're already registered"\<close> and \<^verbatim>\<open>"Registered (email sent if SMTP is set)"\<close>.
\<close>

datatype message =
    Fill_all_fields
  | Email_already_registered
  | Invalid_email_or_password
  | Fill_all_required_fields
  | Capacity_must_be_1_5000
  | Event_is_full
  | Youre_already_registered
  | Registered_email_sent_if_SMTP_is_set

text \<open>
  A response is a redirect (to \<^verbatim>\<open>/\<close>, to \<^verbatim>\<open>/login\<close>, to \<^verbatim>\<open>/events/<id>\<close>), a rendered
  view with its locals, or the 404 \<^verbatim>\<open>"Event not found"\<close>.  \<open>Render_event\<close> carries
  \<^verbatim>\<open>{ event, alreadyRegistered, error, ok }\<close>, the event being the result of a
  \<^verbatim>\<open>.get()\<close>: a row or \<^verbatim>\<open>undefined\<close>.
\<close>

datatype response =
    Redirect_home
  | Redirect_login
  | Redirect_event nat
  | Render_index "event_row list"
  | Render_signup "message option"
  | Render_login "message option"
  | Render_new_event "message option"
  | Render_event "event_row option" bool "message option" "message option"
  | Event_not_found

subsection \<open>Mail\<close>

text \<open>
  Of \<^verbatim>\<open>process.env\<close> the handlers read \<^verbatim>\<open>SMTP_HOST\<close> and \<^verbatim>\<open>BASE_URL\<close> (already
  defaulted).  \<open>sendMail\<close> is what the nodemailer transport does with a message: it
  resolves (\<open>None\<close>) or rejects with an error, of which the handler reads the
  \<^verbatim>\<open>message\<close>.
\<close>

record mail =
  mail_to :: jsstring
  eventTitle :: jsstring
  startsAt :: jsstring
  mail_location :: jsstring
  link :: jsstring

record env =
  SMTP_HOST :: field
  BASE_URL :: jsstring
  sendMail :: "mail \<Rightarrow> jsstring option"

text \<open>\<^verbatim>\<open>if (!process.env.SMTP_HOST) return null;\<close>\<close>

definition makeTransport :: "env \<Rightarrow> (mail \<Rightarrow> jsstring option) option" where
  "makeTransport E = (if falsy (SMTP_HOST E) then None else Some (sendMail E))"

text \<open>
  What a call of \<open>sendRegistrationEmail\<close> comes to: it returns without sending, it
  returns after the transport took the message, or it throws.
\<close>

datatype sending = Not_configured | Sent mail | Failed jsstring

definition sendRegistrationEmail :: "env \<Rightarrow> mail \<Rightarrow> sending" where
  "sendRegistrationEmail E m =
     (case makeTransport E of
        None \<Rightarrow> Not_configured
      | Some transporter \<Rightarrow>
          (case transporter m of None \<Rightarrow> Sent m | Some e \<Rightarrow> Failed e))"

subsection \<open>The handlers\<close>

text \<open>\<^verbatim>\<open>GET /\<close>\<close>

definition get_index :: "platform \<Rightarrow> db \<Rightarrow> response" where
  "get_index P d = Render_index (listEvents P d)"

text \<open>\<^verbatim>\<open>POST /signup\<close>: the response, the database and the session after it.\<close>

record signup_body =
  body_name :: field
  body_email :: field
  body_password :: field

definition post_signup :: "platform \<Rightarrow> signup_body \<Rightarrow> db \<Rightarrow> session \<Rightarrow> response \<times> db \<times> session" where
  "post_signup P b d s =
     (let name = trim (orEmpty (body_name b));
          email = toLowerCase P (trim (orEmpty (body_email b)));
          password = orEmpty (body_password b)
      in if name = [] \<or> email = [] \<or> password = [] then (Render_signup (Some Fill_all_fields), d, s)
         else
           (case find (\<lambda>u. uemail u = email) (users d) of
              Some existing \<Rightarrow> (Render_signup (Some Email_already_registered), d, s)
            | None \<Rightarrow>
                (let hash = bcrypt_hash P password 12;
                     (lastInsertRowid, d') = insert_user d name email hash
                 in (Redirect_home, d', Some \<lparr>sid = lastInsertRowid, sname = name, semail = email\<rparr>))))"

text \<open>\<^verbatim>\<open>POST /login\<close>: the response and the session after it.\<close>

record login_body =
  login_email :: field
  login_password :: field

definition post_login :: "platform \<Rightarrow> login_body \<Rightarrow> db \<Rightarrow> session \<Rightarrow> response \<times> session" where
  "post_login P b d s =
     (let email = toLowerCase P (trim (orEmpty (login_email b)));
          password = orEmpty (login_password b)
      in case find (\<lambda>u. uemail u = email) (users d) of
           None \<Rightarrow> (Render_login (Some Invalid_email_or_password), s)
         | Some u \<Rightarrow>
             if \<not> bcrypt_compare P password (password_hash u)
             then (Render_login (Some Invalid_email_or_password), s)
             else (Redirect_home, Some \<lparr>sid = uid u, sname = uname u, semail = uemail u\<rparr>))"

text \<open>
  \<^verbatim>\<open>POST /events/new\<close>, behind \<open>requireAuth\<close>.  \<^verbatim>\<open>Number(req.body.capacity || 50)\<close> is
  50 for an absent or empty field and \<open>StringToNumber\<close> of the field otherwise.  The
  start is taken as it comes (\<^verbatim>\<open>const starts_at = req.body.starts_at;\<close>).  A capacity
  that passes the second check is finite; the last branch of the \<open>case\<close> below is never
  taken (lemma \<open>capacity_accepted\<close>).
\<close>

record event_body =
  body_title :: field
  body_description :: field
  body_location :: field
  body_starts_at :: field
  body_capacity :: field

definition capacity_of :: "field \<Rightarrow> jsnum" where
  "capacity_of f = (if falsy f then Fin 50 else StringToNumber (orEmpty f))"

definition capacity_refused :: "jsnum \<Rightarrow> bool" where
  \<comment> \<open>\<^verbatim>\<open>!Number.isFinite(capacity) || capacity < 1 || capacity > 5000\<close>\<close>
  "capacity_refused c \<longleftrightarrow> \<not> isFinite c \<or> js_lt c 1 \<or> js_gt c 5000"

definition post_events_new :: "event_body \<Rightarrow> db \<Rightarrow> session \<Rightarrow> response \<times> db" where
  "post_events_new b d s =
     (case s of
        None \<Rightarrow> (Redirect_login, d)
      | Some su \<Rightarrow>
          (let title = trim (orEmpty (body_title b));
               description = trim (orEmpty (body_description b));
               location = trim (orEmpty (body_location b));
               starts_at = body_starts_at b;
               capacity = capacity_of (body_capacity b)
           in if title = [] \<or> description = [] \<or> location = [] \<or> falsy starts_at
              then (Render_new_event (Some Fill_all_required_fields), d)
              else if capacity_refused capacity
              then (Render_new_event (Some Capacity_must_be_1_5000), d)
              else
                (case capacity of
                   Fin c \<Rightarrow>
                     (let (lastInsertRowid, d') =
                            insert_event d (sid su) title description location (orEmpty starts_at) c
                      in (Redirect_event lastInsertRowid, d'))
                 | _ \<Rightarrow> (Render_new_event (Some Capacity_must_be_1_5000), d))))"

text \<open>
  \<^verbatim>\<open>POST /events/:id/register\<close>, behind \<open>requireAuth\<close>: the response, the database
  after it, what became of the mail, and the lines of \<^verbatim>\<open>console.warn\<close>.  The event is
  read before the insert and again after the mail.
\<close>

definition confirmation :: "env \<Rightarrow> session_user \<Rightarrow> event_row \<Rightarrow> mail" where
  \<comment> \<open>the argument of \<open>sendRegistrationEmail\<close>; the link is \<^verbatim>\<open>`${BASE_URL}/events/${id}`\<close>\<close>
  "confirmation E su event =
     \<lparr>mail_to = semail su, eventTitle = title (ev event), startsAt = starts_at (ev event),
      mail_location = location (ev event),
      link = BASE_URL E @ js ''/events/'' @ decimal (eid (ev event))\<rparr>"

definition warning :: "sending \<Rightarrow> jsstring list" where
  \<comment> \<open>\<^verbatim>\<open>catch (e) { console.warn("Email failed:", e.message); }\<close>\<close>
  "warning sent = (case sent of Failed e \<Rightarrow> [js ''Email failed: '' @ e] | _ \<Rightarrow> [])"

definition post_events_register ::
  "env \<Rightarrow> jsstring \<Rightarrow> db \<Rightarrow> session \<Rightarrow> response \<times> db \<times> sending option \<times> jsstring list" where
  "post_events_register E param d s =
     (case s of
        None \<Rightarrow> (Redirect_login, d, None, [])
      | Some su \<Rightarrow>
          (case select_event d (StringToNumber param) of
             None \<Rightarrow> (Event_not_found, d, None, [])
           | Some event \<Rightarrow>
               if capacity (ev event) \<le> of_nat (reg_count event)
               then (Render_event (Some event) False (Some Event_is_full) None, d, None, [])
               else
                 (case insert_registration d (eid (ev event)) (sid su) of
                    None \<Rightarrow>
                      (Render_event (Some event) True None (Some Youre_already_registered), d, None, [])
                  | Some d' \<Rightarrow>
                      (Render_event (select_event d' (StringToNumber param)) True None
                         (Some Registered_email_sent_if_SMTP_is_set),
                       d',
                       Some (sendRegistrationEmail E (confirmation E su event)),
                       warning (sendRegistrationEmail E (confirmation E su event))))))"

text \<open>
  \<^verbatim>\<open>(req.body.email || "").trim().toLowerCase()\<close>, the email as both \<open>post_signup\<close> and
  \<open>post_login\<close> normalise it.
\<close>

abbreviation normalized :: "platform \<Rightarrow> field \<Rightarrow> jsstring" where
  "normalized P f \<equiv> toLowerCase P (trim (orEmpty f))"

subsection \<open>The states the application reaches\<close>

text \<open>
  A state is the database and the set of users that some live session holds in
  \<^verbatim>\<open>req.session.user\<close>.  The database starts empty (\<^verbatim>\<open>CREATE TABLE IF NOT EXISTS\<close>)
  and only the three POST handlers above write to it; a session is set by the signup and
  the login, and is lost by \<^verbatim>\<open>POST /logout\<close>, by a later login in the same browser and
  when the process restarts (the session store is in memory, the database is a file).
  A request carries no session or one of the live ones.
\<close>

definition cookies :: "session_user set \<Rightarrow> session set" where
  "cookies S = insert None (Some ` S)"

inductive reachable :: "platform \<Rightarrow> db \<Rightarrow> session_user set \<Rightarrow> bool" for P :: platform where
  reachable_empty: "reachable P empty_db {}"
| reachable_forget: "reachable P d S \<Longrightarrow> S' \<subseteq> S \<Longrightarrow> reachable P d S'"
| reachable_signup:
    "reachable P d S \<Longrightarrow> s \<in> cookies S \<Longrightarrow> post_signup P b d s = (r, d', s') \<Longrightarrow>
     reachable P d' (S \<union> set_option s')"
| reachable_login:
    "reachable P d S \<Longrightarrow> s \<in> cookies S \<Longrightarrow> post_login P lb d s = (r, s') \<Longrightarrow>
     reachable P d (S \<union> set_option s')"
| reachable_new_event:
    "reachable P d S \<Longrightarrow> s \<in> cookies S \<Longrightarrow> post_events_new eb d s = (r, d') \<Longrightarrow>
     reachable P d' S"
| reachable_register:
    "reachable P d S \<Longrightarrow> s \<in> cookies S \<Longrightarrow> post_events_register E param d s = (r, d', m, w) \<Longrightarrow>
     reachable P d' S"

text \<open>
  The invariant of the table \<open>users\<close>: no two rows share an email, and every email is
  a lower-cased, trimmed string.
\<close>

definition emails_ok :: "platform \<Rightarrow> db \<Rightarrow> bool" where
  "emails_ok P d \<longleftrightarrow>
     distinct (map uemail (users d)) \<and>
     list_all (\<lambda>u. \<exists>raw. uemail u = toLowerCase P (trim raw)) (users d)"

text \<open>
  The invariant of sessions and hosts: the user of every live session is a row of
  \<open>users\<close>, and so is the host of every event (\<open>hosted\<close>).
\<close>

definition hosted :: "db \<Rightarrow> event \<Rightarrow> bool" where
  "hosted d e = list_ex (\<lambda>u. uid u = host_user_id e) (users d)"

definition sessions_ok :: "db \<Rightarrow> session_user set \<Rightarrow> bool" where
  "sessions_ok d S \<longleftrightarrow> (\<forall>su \<in> S. \<exists>u \<in> set (users d). uid u = sid su) \<and> list_all (hosted d) (events d)"

subsection \<open>Data for the examples\<close>

text \<open>
  A platform for the examples.  Its \<open>toLowerCase\<close> maps the letters A to Z and is right
  on ASCII strings; its \<open>datetime\<close> is SQLite's on the texts listed and on texts that
  hold no date (\<^verbatim>\<open>NULL\<close>); its bcrypt is a stand-in that keeps the password readable.
\<close>

definition ascii_lower :: "jsstring \<Rightarrow> jsstring" where
  "ascii_lower s = map (\<lambda>c. if 0x41 \<le> c \<and> c \<le> 0x5A then c + 0x20 else c) s"

definition example_datetime :: "jsstring \<Rightarrow> jsstring option" where
  "example_datetime s =
     (if s = js ''2024-05-01 18:00'' then Some (js ''2024-05-01 18:00:00'')
      else if s = js ''2024-05-01T18:00'' then Some (js ''2024-05-01 18:00:00'')
      else if s = js ''2024-05-01T09:00'' then Some (js ''2024-05-01 09:00:00'')
      else if s = js ''2024-05-01T10:00'' then Some (js ''2024-05-01 10:00:00'')
      else if s = js ''2024-06-15T12:30'' then Some (js ''2024-06-15 12:30:00'')
      else None)"

definition example_platform :: platform where
  "example_platform =
     \<lparr>toLowerCase = ascii_lower,
      bcrypt_hash = (\<lambda>password rounds. js ''$2b$12$'' @ password),
      bcrypt_compare = (\<lambda>password hash. hash = js ''$2b$12$'' @ password),
      datetime = example_datetime\<rparr>"

definition no_smtp :: env where
  "no_smtp = \<lparr>SMTP_HOST = None, BASE_URL = js ''http://localhost:3000'', sendMail = (\<lambda>m. None)\<rparr>"

definition failing_smtp :: env where
  "failing_smtp =
     \<lparr>SMTP_HOST = Some (js ''smtp.example.com''), BASE_URL = js ''http://localhost:3000'',
      sendMail = (\<lambda>m. Some (js ''connect ECONNREFUSED''))\<rparr>"

text \<open>The scenario of the specification: Alice hosts the event Meetup of capacity 1.\<close>

definition alice :: user where
  "alice = \<lparr>uid = 1, uname = js ''Alice'', uemail = js ''alice@x.com'',
            password_hash = js ''$2b$12$pw''\<rparr>"

definition bob :: user where
  "bob = \<lparr>uid = 2, uname = js ''Bob'', uemail = js ''bob@x.com'',
          password_hash = js ''$2b$12$secret''\<rparr>"

definition alice_session :: session_user where
  "alice_session = \<lparr>sid = 1, sname = js ''Alice'', semail = js ''alice@x.com''\<rparr>"

definition bob_session :: session_user where
  "bob_session = \<lparr>sid = 2, sname = js ''Bob'', semail = js ''bob@x.com''\<rparr>"

definition meetup :: event where
  "meetup = \<lparr>eid = 1, host_user_id = 1, title = js ''Meetup'', description = js ''Monthly meetup'',
             location = js ''Library'', starts_at = js ''2024-05-01T18:00'', capacity = 1\<rparr>"

definition meetup_row :: "nat \<Rightarrow> event_row" where
  "meetup_row n = \<lparr>ev = meetup, host_name = js ''Alice'', reg_count = n\<rparr>"

definition two_users_db :: db where
  "two_users_db = \<lparr>users = [alice, bob], users_seq = 2, events = [], events_seq = 0,
                    registrations = [], registrations_seq = 0\<rparr>"

definition meetup_db :: db where
  "meetup_db = \<lparr>users = [alice, bob], users_seq = 2, events = [meetup], events_seq = 1,
                 registrations = [], registrations_seq = 0\<rparr>"

definition meetup_full_db :: db where
  "meetup_full_db = \<lparr>users = [alice, bob], users_seq = 2, events = [meetup], events_seq = 1,
                      registrations = [\<lparr>rid = 1, event_id = 1, user_id = 2\<rparr>],
                      registrations_seq = 1\<rparr>"

text \<open>A second event, of capacity 3, hosted by Bob.\<close>

definition workshop :: event where
  "workshop = \<lparr>eid = 2, host_user_id = 2, title = js ''Workshop'', description = js ''Hands-on'',
               location = js ''Lab'', starts_at = js ''2024-06-15T12:30'', capacity = 3\<rparr>"

definition workshop_row :: "nat \<Rightarrow> event_row" where
  "workshop_row n = \<lparr>ev = workshop, host_name = js ''Bob'', reg_count = n\<rparr>"

definition two_events_db :: db where
  "two_events_db = \<lparr>users = [alice, bob], users_seq = 2, events = [meetup, workshop], events_seq = 2,
                     registrations = [], registrations_seq = 0\<rparr>"

text \<open>
  The form Alice sends to create the event, with its start and capacity fields left
  open, and the database after a first event was created from it in \<open>two_users_db\<close>.
\<close>

definition meetup_form :: "jsstring \<Rightarrow> jsstring \<Rightarrow> event_body" where
  "meetup_form start cap =
     \<lparr>body_title = Some (js '' Meetup ''), body_description = Some (js ''Monthly meetup''),
      body_location = Some (js ''Library''), body_starts_at = Some start, body_capacity = Some cap\<rparr>"

definition created :: "jsstring \<Rightarrow> rat \<Rightarrow> db" where
  "created start c =
     \<lparr>users = [alice, bob], users_seq = 2,
      events = [\<lparr>eid = 1, host_user_id = 1, title = js ''Meetup'', description = js ''Monthly meetup'',
                location = js ''Library'', starts_at = start, capacity = c\<rparr>],
      events_seq = 1, registrations = [], registrations_seq = 0\<rparr>"

definition no_capacity_form :: "field \<Rightarrow> event_body" where
  "no_capacity_form cap =
     \<lparr>body_title = Some (js '' Meetup ''), body_description = Some (js ''Monthly meetup''),
      body_location = Some (js ''Library''), body_starts_at = Some (js ''2024-05-01T18:00''),
      body_capacity = cap\<rparr>"

text \<open>The forms of the login and signup pages, and the databases the signups lead through.\<close>

definition login_form :: "jsstring \<Rightarrow> jsstring \<Rightarrow> login_body" where
  "login_form e p = \<lparr>login_email = Some e, login_password = Some p\<rparr>"

definition signup_form :: "jsstring \<Rightarrow> jsstring \<Rightarrow> jsstring \<Rightarrow> signup_body" where
  "signup_form n e p = \<lparr>body_name = Some n, body_email = Some e, body_password = Some p\<rparr>"

definition alice_db :: db where
  "alice_db = \<lparr>users = [alice], users_seq = 1, events = [], events_seq = 0, registrations = [],
                registrations_seq = 0\<rparr>"

definition carol_db :: db where
  "carol_db =
     \<lparr>users = [alice, bob,
               \<lparr>uid = 3, uname = js ''Carol'', uemail = js ''carol@x.com'',
                password_hash = js ''$2b$12$hunter2''\<rparr>],
      users_seq = 3, events = [], events_seq = 0, registrations = [], registrations_seq = 0\<rparr>"

text \<open>
  Three events of one day, inserted in the order evening talk, breakfast, stand-up.  The
  start of the evening talk is written with a space, the other two with a \<^verbatim>\<open>T\<close>.
\<close>

definition evening :: event where
  "evening = \<lparr>eid = 1, host_user_id = 1, title = js ''Evening talk'', description = js ''Talk'',
              location = js ''Hall'', starts_at = js ''2024-05-01 18:00'', capacity = 50\<rparr>"

definition breakfast :: event where
  "breakfast = \<lparr>eid = 2, host_user_id = 1, title = js ''Breakfast'', description = js ''Coffee'',
                location = js ''Cafe'', starts_at = js ''2024-05-01T09:00'', capacity = 50\<rparr>"

definition standup :: event where
  "standup = \<lparr>eid = 3, host_user_id = 2, title = js ''Stand-up'', description = js ''Daily'',
              location = js ''Office'', starts_at = js ''2024-05-01T10:00'', capacity = 50\<rparr>"

definition day_db :: db where
  "day_db = \<lparr>users = [alice, bob], users_seq = 2, events = [evening, breakfast, standup],
              events_seq = 3, registrations = [], registrations_seq = 0\<rparr>"

section \<open>Properties\<close>

subsection \<open>Literals\<close>

lemma of_char_word_inject: "(of_char c :: 16 word) = of_char d \<longleftrightarrow> c = d"
proof
  assume eq: "(of_char c :: 16 word) = of_char d"
  have u: "unat (of_char x :: 16 word) = of_char x" for x
  proof -
    have "(of_char x :: 16 word) = of_nat (of_char x)"
      by (simp add: of_nat_of_char)
    then have "unat (of_char x :: 16 word) = of_char x mod 2 ^ 16"
      by (simp add: unat_of_nat)
    moreover have "(of_char x :: nat) < 2 ^ 16"
    proof -
      have "(of_char x :: nat) < 256"
        by (rule nat_of_char_less_256)
      also have "(256 :: nat) < 2 ^ 16"
        by simp
      finally show ?thesis .
    qed
    ultimately show ?thesis by simp
  qed
  from eq have "unat (of_char c :: 16 word) = unat (of_char d :: 16 word)"
    by simp
  then show "c = d"
    by (simp add: u)
qed simp

lemma js_inject: "js a = js b \<longleftrightarrow> a = b"
  unfolding js_def
  by (rule inj_map_eq_map) (simp add: inj_def of_char_word_inject)

lemma js_Nil_iff: "js a = [] \<longleftrightarrow> a = []" "[] = js a \<longleftrightarrow> a = []"
  by (auto simp: js_def)

lemma js_append: "js a @ js b = js (a @ b)"
  by (simp add: js_def)

subsection \<open>Evaluating \<open>Number\<close>\<close>

lemma floor_rat_numeral_divide:
  "\<lfloor>numeral a / numeral b :: rat\<rfloor> = numeral a div numeral b"
  by (metis floor_divide_of_int_eq of_int_numeral)

lemma floor_rat_one_divide:
  "\<lfloor>1 / numeral b :: rat\<rfloor> = 1 div numeral b"
  by (metis floor_divide_of_int_eq of_int_1 of_int_numeral)

lemmas number_eval =
  StringToNumber_def js_def trim_def isWhiteSpace_def NonDecimalIntegerLiteral_def
  StrDecimalLiteral_def StrUnsignedDecimalLiteral_def isDigitOf_def digitValue_def
  digitsValue_def ExponentPart_def pow10_def roundToDouble_def roundMagnitude_def roundAt_def
  binade_def roundTiesToEven_def pow2_def Let_def negate_def bitLength.simps
  floor_rat_numeral_divide floor_rat_one_divide

lemma Number_0: "StringToNumber (js ''0'') = Fin 0"
  by (simp add: number_eval)

lemma Number_1: "StringToNumber (js ''1'') = Fin 1"
  by (simp add: number_eval)

lemma Number_2: "StringToNumber (js ''2'') = Fin 2"
  by (simp add: number_eval)

lemma Number_5000: "StringToNumber (js ''5000'') = Fin 5000"
  by (simp add: number_eval)

lemma Number_5001: "StringToNumber (js ''5001'') = Fin 5001"
  by (simp add: number_eval)

lemma Number_2_5: "StringToNumber (js ''2.5'') = Fin (5 / 2)"
  by (simp add: number_eval)

lemma Number_abc: "StringToNumber (js ''abc'') = NaN"
  by (simp add: number_eval)

subsection \<open>Queries and inserts\<close>

lemma find_SomeD: "find p xs = Some x \<Longrightarrow> x \<in> set xs \<and> p x"
  by (induction xs) (auto split: if_splits)

lemma find_None_set: "find p xs = None \<longleftrightarrow> (\<forall>x \<in> set xs. \<not> p x)"
  by (induction xs) auto

lemma find_Some_distinct:
  assumes "distinct (map f xs)" and "x \<in> set xs"
  shows "find (\<lambda>y. f y = f x) xs = Some x"
  using assms by (induction xs) (auto simp: image_iff)

lemma join_host_hosted:
  "hosted d e \<Longrightarrow> \<exists>row. join_host d e = Some row \<and> ev row = e"
  by (auto simp: hosted_def join_host_def list_ex_iff find_None_set split: option.splits)

lemma select_event_SomeD:
  assumes "select_event d i = Some row"
  shows "Fin (of_nat (eid (ev row))) = i" and "reg_count row = reg_count_of d (eid (ev row))"
    and "ev row \<in> set (events d)" and "join_host d (ev row) = Some row"
  using assms
  by (auto simp: select_event_def join_host_def split: option.splits dest: find_SomeD)

lemma registered_iff:
  "registered d e u \<longleftrightarrow> (\<exists>r \<in> set (registrations d). event_id r = e \<and> user_id r = u)"
  by (simp add: registered_def list_ex_iff)

lemma insert_registration_Some:
  assumes "insert_registration d e u = Some d'"
  shows "users d' = users d" and "events d' = events d"
    and "registrations d' =
           registrations d @ [\<lparr>rid = Suc (registrations_seq d), event_id = e, user_id = u\<rparr>]"
    and "reg_count_of d' e' = reg_count_of d e' + (if e' = e then 1 else 0)"
    and "registered d' e u"
  using assms
  by (auto simp: insert_registration_def Let_def reg_count_of_def registered_def split: if_splits)

lemma select_event_insert_registration:
  assumes "insert_registration d e u = Some d'" and "select_event d i = Some row"
  shows "select_event d' i = Some (row\<lparr>reg_count := reg_count_of d' (eid (ev row))\<rparr>)"
  using assms insert_registration_Some[OF assms(1)]
  by (auto simp: select_event_def join_host_def split: option.splits)

lemma select_event_present:
  assumes "distinct (map eid (events d))" and "e \<in> set (events d)" and "hosted d e"
  shows "\<exists>row. select_event d (Fin (of_nat (eid e))) = Some row \<and> ev row = e"
proof -
  have "find (\<lambda>x. eid x = eid e) (events d) = Some e"
    using assms(1,2) by (rule find_Some_distinct)
  moreover obtain row where "join_host d e = Some row" "ev row = e"
    using join_host_hosted[OF assms(3)] by blast
  ultimately show ?thesis
    by (simp add: select_event_def)
qed

lemmas example_defs =
  meetup_db_def meetup_full_db_def two_users_db_def meetup_def meetup_row_def alice_def bob_def
  alice_session_def bob_session_def workshop_def workshop_row_def two_events_db_def
  alice_db_def carol_db_def

lemma select_meetup: "select_event meetup_db (StringToNumber (js ''1'')) = Some (meetup_row 0)"
  by (simp add: Number_1 select_event_def join_host_def reg_count_of_def example_defs)

lemma select_meetup_full:
  "select_event meetup_full_db (StringToNumber (js ''1'')) = Some (meetup_row 1)"
  by (simp add: Number_1 select_event_def join_host_def reg_count_of_def example_defs)

lemma select_workshop:
  "select_event two_events_db (StringToNumber (js ''2'')) = Some (workshop_row 0)"
  by (simp add: Number_2 select_event_def join_host_def reg_count_of_def example_defs)

subsection \<open>Registration\<close>

lemma post_events_register_full:
  assumes "select_event d (StringToNumber param) = Some row"
      and "capacity (ev row) \<le> of_nat (reg_count_of d (eid (ev row)))"
  shows "post_events_register E param d (Some su) =
           (Render_event (Some row) False (Some Event_is_full) None, d, None, [])"
  using assms select_event_SomeD(2)[OF assms(1)]
  by (simp add: post_events_register_def)

lemma post_events_register_duplicate:
  assumes "select_event d (StringToNumber param) = Some row"
      and "of_nat (reg_count_of d (eid (ev row))) < capacity (ev row)"
      and "registered d (eid (ev row)) (sid su)"
  shows "post_events_register E param d (Some su) =
           (Render_event (Some row) True None (Some Youre_already_registered), d, None, [])"
  using assms select_event_SomeD(2)[OF assms(1)]
  by (simp add: post_events_register_def insert_registration_def)

lemma post_events_register_inserted:
  assumes sel: "select_event d (StringToNumber param) = Some row"
      and spare: "of_nat (reg_count_of d (eid (ev row))) < capacity (ev row)"
      and new: "\<not> registered d (eid (ev row)) (sid su)"
  shows "\<exists>d'. insert_registration d (eid (ev row)) (sid su) = Some d' \<and>
              post_events_register E param d (Some su) =
                (Render_event (Some (row\<lparr>reg_count := Suc (reg_count_of d (eid (ev row)))\<rparr>)) True None
                   (Some Registered_email_sent_if_SMTP_is_set),
                 d',
                 Some (sendRegistrationEmail E (confirmation E su row)),
                 warning (sendRegistrationEmail E (confirmation E su row)))"
proof -
  obtain d' where ins: "insert_registration d (eid (ev row)) (sid su) = Some d'"
    using new by (simp add: insert_registration_def Let_def)
  have cnt: "reg_count_of d' (eid (ev row)) = Suc (reg_count_of d (eid (ev row)))"
    using insert_registration_Some(4)[OF ins, of "eid (ev row)"] by simp
  have again: "select_event d' (StringToNumber param) =
                 Some (row\<lparr>reg_count := Suc (reg_count_of d (eid (ev row)))\<rparr>)"
    using select_event_insert_registration[OF ins sel] cnt by simp
  show ?thesis
    using sel spare ins again select_event_SomeD(2)[OF sel]
    by (simp add: post_events_register_def)
qed

text \<open>
  C1.  Let the event of the route be in the database and the user of the session not
  yet registered for it.  If its registration count has reached its capacity, the
  handler renders "Event is full." and the database is as it was.  If the count is one
  below the capacity, the handler inserts the registration, renders the success message,
  and the registration count, of the page and of the database, is the capacity.
\<close>

theorem register_at_capacity_boundary:
  assumes "select_event d (StringToNumber param) = Some row"
      and "\<not> registered d (eid (ev row)) (sid su)"
  shows "(capacity (ev row) \<le> of_nat (reg_count_of d (eid (ev row))) \<longrightarrow>
            post_events_register E param d (Some su) =
              (Render_event (Some row) False (Some Event_is_full) None, d, None, []))
       \<and> (of_nat (reg_count_of d (eid (ev row))) = capacity (ev row) - 1 \<longrightarrow>
            (\<exists>row' d'.
               fst (post_events_register E param d (Some su)) =
                 Render_event (Some row') True None (Some Registered_email_sent_if_SMTP_is_set) \<and>
               fst (snd (post_events_register E param d (Some su))) = d' \<and>
               ev row' = ev row \<and>
               registrations d' =
                 registrations d @
                 [\<lparr>rid = Suc (registrations_seq d), event_id = eid (ev row), user_id = sid su\<rparr>] \<and>
               of_nat (reg_count row') = capacity (ev row) \<and>
               of_nat (reg_count_of d' (eid (ev row))) = capacity (ev row)))"
proof (intro conjI impI)
  assume "capacity (ev row) \<le> of_nat (reg_count_of d (eid (ev row)))"
  with assms(1) show "post_events_register E param d (Some su) =
               (Render_event (Some row) False (Some Event_is_full) None, d, None, [])"
    by (rule post_events_register_full)
next
  assume last: "of_nat (reg_count_of d (eid (ev row))) = capacity (ev row) - 1"
  then have spare: "of_nat (reg_count_of d (eid (ev row))) < capacity (ev row)"
    by simp
  from post_events_register_inserted[OF assms(1) spare assms(2), of E]
  obtain d' where ins: "insert_registration d (eid (ev row)) (sid su) = Some d'"
    and res: "post_events_register E param d (Some su) =
                (Render_event (Some (row\<lparr>reg_count := Suc (reg_count_of d (eid (ev row)))\<rparr>)) True None
                   (Some Registered_email_sent_if_SMTP_is_set),
                 d',
                 Some (sendRegistrationEmail E (confirmation E su row)),
                 warning (sendRegistrationEmail E (confirmation E su row)))"
    by blast
  have cnt: "reg_count_of d' (eid (ev row)) = Suc (reg_count_of d (eid (ev row)))"
    using insert_registration_Some(4)[OF ins, of "eid (ev row)"] by simp
  have full: "of_nat (Suc (reg_count_of d (eid (ev row)))) = capacity (ev row)"
    using last by simp
  show "\<exists>row' d'.
               fst (post_events_register E param d (Some su)) =
                 Render_event (Some row') True None (Some Registered_email_sent_if_SMTP_is_set) \<and>
               fst (snd (post_events_register E param d (Some su))) = d' \<and>
               ev row' = ev row \<and>
               registrations d' =
                 registrations d @
                 [\<lparr>rid = Suc (registrations_seq d), event_id = eid (ev row), user_id = sid su\<rparr>] \<and>
               of_nat (reg_count row') = capacity (ev row) \<and>
               of_nat (reg_count_of d' (eid (ev row))) = capacity (ev row)"
    using res insert_registration_Some(3)[OF ins] cnt full
    by (intro exI[of _ "row\<lparr>reg_count := Suc (reg_count_of d (eid (ev row)))\<rparr>"] exI[of _ d']) simp
qed

theorem register_at_capacity_boundary_witness:
  "post_events_register no_smtp (js ''1'') meetup_full_db (Some alice_session) =
     (Render_event (Some (meetup_row 1)) False (Some Event_is_full) None, meetup_full_db, None, [])
   \<and> (\<exists>row' d'.
         fst (post_events_register no_smtp (js ''1'') meetup_db (Some bob_session)) =
           Render_event (Some row') True None (Some Registered_email_sent_if_SMTP_is_set) \<and>
         fst (snd (post_events_register no_smtp (js ''1'') meetup_db (Some bob_session))) = d' \<and>
         ev row' = meetup \<and>
         registrations d' = [\<lparr>rid = 1, event_id = 1, user_id = 2\<rparr>] \<and>
         reg_count row' = 1 \<and> reg_count_of d' 1 = 1 \<and> capacity meetup = 1)"
proof -
  have full: "\<not> registered meetup_full_db (eid (ev (meetup_row 1))) (sid alice_session)"
             "capacity (ev (meetup_row 1)) \<le> of_nat (reg_count_of meetup_full_db (eid (ev (meetup_row 1))))"
    by (simp_all add: registered_def reg_count_of_def example_defs)
  have last: "\<not> registered meetup_db (eid (ev (meetup_row 0))) (sid bob_session)"
             "of_nat (reg_count_of meetup_db (eid (ev (meetup_row 0)))) = capacity (ev (meetup_row 0)) - 1"
    by (simp_all add: registered_def reg_count_of_def example_defs)
  show ?thesis
    using register_at_capacity_boundary[OF select_meetup_full full(1), of no_smtp] full(2)
          register_at_capacity_boundary[OF select_meetup last(1), of no_smtp] last(2)
    by (auto simp: example_defs)
qed

text \<open>
  C9.  When the user of the session is already registered for the event and its
  registration count has reached its capacity, the handler renders "Event is full."
  (with \<^verbatim>\<open>alreadyRegistered: false\<close>), not the already-registered page: the capacity
  is compared before the insert is tried.
\<close>

theorem full_event_precedes_duplicate:
  assumes "select_event d (StringToNumber param) = Some row"
      and "registered d (eid (ev row)) (sid su)"
      and "capacity (ev row) \<le> of_nat (reg_count_of d (eid (ev row)))"
  shows "post_events_register E param d (Some su) =
           (Render_event (Some row) False (Some Event_is_full) None, d, None, [])
       \<and> fst (post_events_register E param d (Some su)) \<noteq>
           Render_event (Some row) True None (Some Youre_already_registered)"
  using post_events_register_full[OF assms(1) assms(3), of E su] by simp

theorem full_event_precedes_duplicate_witness:
  "registered meetup_full_db 1 2 \<and> capacity meetup \<le> of_nat (reg_count_of meetup_full_db 1)
   \<and> post_events_register no_smtp (js ''1'') meetup_full_db (Some bob_session) =
        (Render_event (Some (meetup_row 1)) False (Some Event_is_full) None, meetup_full_db, None, [])"
proof -
  have h: "registered meetup_full_db (eid (ev (meetup_row 1))) (sid bob_session)"
          "capacity (ev (meetup_row 1)) \<le> of_nat (reg_count_of meetup_full_db (eid (ev (meetup_row 1))))"
    by (simp_all add: registered_def reg_count_of_def example_defs)
  show ?thesis
    using full_event_precedes_duplicate[OF select_meetup_full h, of no_smtp] h
    by (simp add: example_defs)
qed

text \<open>
  C2.  The claim fails where the first registration fills the event: on the event of
  capacity 1, Bob's first request registers him, and his second request renders
  "Event is full.", not the already-registered message.
\<close>

theorem second_registration_counterexample:
  "of_nat (reg_count_of meetup_db 1) < capacity meetup
   \<and> post_events_register no_smtp (js ''1'') meetup_db (Some bob_session) =
       (Render_event (Some (meetup_row 1)) True None (Some Registered_email_sent_if_SMTP_is_set),
        meetup_full_db, Some Not_configured, [])
   \<and> post_events_register no_smtp (js ''1'') meetup_full_db (Some bob_session) =
       (Render_event (Some (meetup_row 1)) False (Some Event_is_full) None, meetup_full_db, None, [])"
proof -
  have spare: "of_nat (reg_count_of meetup_db 1) < capacity meetup"
    by (simp add: reg_count_of_def example_defs)
  have first: "post_events_register no_smtp (js ''1'') meetup_db (Some bob_session) =
       (Render_event (Some (meetup_row 1)) True None (Some Registered_email_sent_if_SMTP_is_set),
        meetup_full_db, Some Not_configured, [])"
    using select_meetup select_meetup_full
    by (simp add: post_events_register_def insert_registration_def registered_def
          sendRegistrationEmail_def makeTransport_def falsy_def no_smtp_def warning_def example_defs)
  have full: "capacity (ev (meetup_row 1)) \<le> of_nat (reg_count_of meetup_full_db (eid (ev (meetup_row 1))))"
    by (simp add: reg_count_of_def example_defs)
  show ?thesis
    using spare first post_events_register_full[OF select_meetup_full full, of no_smtp bob_session]
    by simp
qed

text \<open>
  C2, amended.  For an event with spare capacity and a user not yet registered, the
  first request inserts the registration and renders the success message.  A second
  request of the same user leaves the database as it is; it renders the
  already-registered message when the event still has spare capacity after the first
  registration, and "Event is full." when the first registration filled it.
\<close>

theorem second_registration:
  assumes sel: "select_event d (StringToNumber param) = Some row"
      and new: "\<not> registered d (eid (ev row)) (sid su)"
      and spare: "of_nat (reg_count_of d (eid (ev row))) < capacity (ev row)"
  shows "\<exists>row1 d1.
           fst (post_events_register E param d (Some su)) =
             Render_event (Some row1) True None (Some Registered_email_sent_if_SMTP_is_set) \<and>
           fst (snd (post_events_register E param d (Some su))) = d1 \<and>
           registrations d1 =
             registrations d @
             [\<lparr>rid = Suc (registrations_seq d), event_id = eid (ev row), user_id = sid su\<rparr>] \<and>
           reg_count_of d1 (eid (ev row)) = Suc (reg_count_of d (eid (ev row))) \<and>
           post_events_register E' param d1 (Some su) =
             (if capacity (ev row) \<le> of_nat (Suc (reg_count_of d (eid (ev row))))
              then (Render_event (Some row1) False (Some Event_is_full) None, d1, None, [])
              else (Render_event (Some row1) True None (Some Youre_already_registered), d1, None, []))"
proof -
  let ?n = "reg_count_of d (eid (ev row))"
  let ?row1 = "row\<lparr>reg_count := Suc ?n\<rparr>"
  from post_events_register_inserted[OF sel spare new, of E]
  obtain d1 where ins: "insert_registration d (eid (ev row)) (sid su) = Some d1"
    and res: "post_events_register E param d (Some su) =
                (Render_event (Some ?row1) True None (Some Registered_email_sent_if_SMTP_is_set),
                 d1,
                 Some (sendRegistrationEmail E (confirmation E su row)),
                 warning (sendRegistrationEmail E (confirmation E su row)))"
    by blast
  have cnt: "reg_count_of d1 (eid (ev row)) = Suc ?n"
    using insert_registration_Some(4)[OF ins, of "eid (ev row)"] by simp
  have sel1: "select_event d1 (StringToNumber param) = Some ?row1"
    using select_event_insert_registration[OF ins sel] cnt by simp
  have reg1: "registered d1 (eid (ev ?row1)) (sid su)"
    using insert_registration_Some(5)[OF ins] by simp
  have second: "post_events_register E' param d1 (Some su) =
             (if capacity (ev row) \<le> of_nat (Suc ?n)
              then (Render_event (Some ?row1) False (Some Event_is_full) None, d1, None, [])
              else (Render_event (Some ?row1) True None (Some Youre_already_registered), d1, None, []))"
  proof (cases "capacity (ev row) \<le> of_nat (Suc ?n)")
    case True
    then have "capacity (ev ?row1) \<le> of_nat (reg_count_of d1 (eid (ev ?row1)))"
      using cnt by simp
    from post_events_register_full[OF sel1 this, of E' su] True show ?thesis by simp
  next
    case False
    then have "of_nat (reg_count_of d1 (eid (ev ?row1))) < capacity (ev ?row1)"
      using cnt by simp
    from post_events_register_duplicate[OF sel1 this reg1, of E'] False show ?thesis by simp
  qed
  show ?thesis
    using res insert_registration_Some(3)[OF ins] cnt second
    by (intro exI[of _ ?row1] exI[of _ d1]) simp
qed

theorem second_registration_witness:
  "\<exists>row1 d1.
     fst (post_events_register no_smtp (js ''2'') two_events_db (Some alice_session)) =
       Render_event (Some row1) True None (Some Registered_email_sent_if_SMTP_is_set) \<and>
     fst (snd (post_events_register no_smtp (js ''2'') two_events_db (Some alice_session))) = d1 \<and>
     registrations d1 = [\<lparr>rid = 1, event_id = 2, user_id = 1\<rparr>] \<and>
     reg_count_of d1 2 = 1 \<and>
     post_events_register no_smtp (js ''2'') d1 (Some alice_session) =
       (Render_event (Some row1) True None (Some Youre_already_registered), d1, None, [])"
proof -
  have h: "\<not> registered two_events_db (eid (ev (workshop_row 0))) (sid alice_session)"
          "of_nat (reg_count_of two_events_db (eid (ev (workshop_row 0)))) < capacity (ev (workshop_row 0))"
    by (simp_all add: registered_def reg_count_of_def example_defs)
  show ?thesis
    using second_registration[OF select_workshop h, of no_smtp no_smtp]
    by (auto simp: reg_count_of_def example_defs)
qed

text \<open>
  C8.  \<open>sendRegistrationEmail\<close> returns without sending when \<^verbatim>\<open>SMTP_HOST\<close> is not
  set.  Where the registration is inserted, the response is the success page and the
  database holds the new row whatever the mail does; when sending throws, the handler
  only writes the line "Email failed: ..." with \<^verbatim>\<open>console.warn\<close>.
\<close>

theorem mail_failure_keeps_registration:
  assumes sel: "select_event d (StringToNumber param) = Some row"
      and spare: "of_nat (reg_count_of d (eid (ev row))) < capacity (ev row)"
      and new: "\<not> registered d (eid (ev row)) (sid su)"
  shows "(falsy (SMTP_HOST E) \<longrightarrow> sendRegistrationEmail E m = Not_configured)
       \<and> (\<exists>d'. insert_registration d (eid (ev row)) (sid su) = Some d' \<and>
                registered d' (eid (ev row)) (sid su) \<and>
                fst (post_events_register E param d (Some su)) =
                  Render_event (Some (row\<lparr>reg_count := Suc (reg_count_of d (eid (ev row)))\<rparr>)) True None
                    (Some Registered_email_sent_if_SMTP_is_set) \<and>
                fst (snd (post_events_register E param d (Some su))) = d' \<and>
                (\<forall>e. sendRegistrationEmail E (confirmation E su row) = Failed e \<longrightarrow>
                     snd (snd (post_events_register E param d (Some su))) =
                       (Some (Failed e), [js ''Email failed: '' @ e])))"
proof -
  from post_events_register_inserted[OF sel spare new, of E]
  obtain d' where ins: "insert_registration d (eid (ev row)) (sid su) = Some d'"
    and res: "post_events_register E param d (Some su) =
                (Render_event (Some (row\<lparr>reg_count := Suc (reg_count_of d (eid (ev row)))\<rparr>)) True None
                   (Some Registered_email_sent_if_SMTP_is_set),
                 d',
                 Some (sendRegistrationEmail E (confirmation E su row)),
                 warning (sendRegistrationEmail E (confirmation E su row)))"
    by blast
  have noop: "falsy (SMTP_HOST E) \<longrightarrow> sendRegistrationEmail E m = Not_configured"
    by (simp add: sendRegistrationEmail_def makeTransport_def)
  have kept: "registered d' (eid (ev row)) (sid su)"
    using insert_registration_Some(5)[OF ins] .
  show ?thesis
    using noop ins kept res by (simp add: warning_def)
qed

theorem mail_failure_keeps_registration_witness:
  "sendRegistrationEmail no_smtp (confirmation no_smtp bob_session (meetup_row 0)) = Not_configured
   \<and> sendRegistrationEmail failing_smtp (confirmation failing_smtp bob_session (meetup_row 0)) =
       Failed (js ''connect ECONNREFUSED'')
   \<and> post_events_register failing_smtp (js ''1'') meetup_db (Some bob_session) =
       (Render_event (Some (meetup_row 1)) True None (Some Registered_email_sent_if_SMTP_is_set),
        meetup_full_db,
        Some (Failed (js ''connect ECONNREFUSED'')),
        [js ''Email failed: connect ECONNREFUSED''])"
proof -
  have h: "of_nat (reg_count_of meetup_db (eid (ev (meetup_row 0)))) < capacity (ev (meetup_row 0))"
          "\<not> registered meetup_db (eid (ev (meetup_row 0))) (sid bob_session)"
    by (simp_all add: registered_def reg_count_of_def example_defs)
  have closed: "falsy (SMTP_HOST no_smtp)"
    by (simp add: falsy_def no_smtp_def)
  have fails: "sendRegistrationEmail failing_smtp (confirmation failing_smtp bob_session (meetup_row 0)) =
       Failed (js ''connect ECONNREFUSED'')"
    by (simp add: sendRegistrationEmail_def makeTransport_def falsy_def failing_smtp_def js_def)
  have ins: "insert_registration meetup_db (eid (ev (meetup_row 0))) (sid bob_session) = Some meetup_full_db"
    by (simp add: insert_registration_def registered_def example_defs)
  have cnt: "reg_count_of meetup_db (eid meetup) = 0"
    by (simp add: reg_count_of_def example_defs)
  have line: "js ''Email failed: '' @ js ''connect ECONNREFUSED'' = js ''Email failed: connect ECONNREFUSED''"
    by (simp add: js_def)
  show ?thesis
    using mail_failure_keeps_registration[OF select_meetup h,
            of no_smtp "confirmation no_smtp bob_session (meetup_row 0)"]
          mail_failure_keeps_registration[OF select_meetup h,
            of failing_smtp "confirmation no_smtp bob_session (meetup_row 0)"]
          closed fails ins line cnt
    by (auto simp: prod_eq_iff meetup_row_def)
qed

subsection \<open>Creating an event\<close>

lemma capacity_accepted: "\<not> capacity_refused c \<longleftrightarrow> (\<exists>q. c = Fin q \<and> 1 \<le> q \<and> q \<le> 5000)"
  by (cases c) (auto simp: capacity_refused_def isFinite_def js_lt_def js_gt_def)

lemma post_events_new_cases:
  "post_events_new b d (Some su) =
     (if trim (orEmpty (body_title b)) = [] \<or> trim (orEmpty (body_description b)) = [] \<or>
         trim (orEmpty (body_location b)) = [] \<or> falsy (body_starts_at b)
      then (Render_new_event (Some Fill_all_required_fields), d)
      else case capacity_of (body_capacity b) of
             Fin q \<Rightarrow>
               if 1 \<le> q \<and> q \<le> 5000
               then (Redirect_event (Suc (events_seq d)),
                     d\<lparr>events := events d @
                          [\<lparr>eid = Suc (events_seq d), host_user_id = sid su,
                            title = trim (orEmpty (body_title b)),
                            description = trim (orEmpty (body_description b)),
                            location = trim (orEmpty (body_location b)),
                            starts_at = orEmpty (body_starts_at b), capacity = q\<rparr>],
                        events_seq := Suc (events_seq d)\<rparr>)
               else (Render_new_event (Some Capacity_must_be_1_5000), d)
           | _ \<Rightarrow> (Render_new_event (Some Capacity_must_be_1_5000), d))"
  by (cases "capacity_of (body_capacity b)")
     (auto simp: post_events_new_def Let_def insert_event_def capacity_refused_def isFinite_def
        js_lt_def js_gt_def)

lemma js_Cons_nonempty: "js (c # cs) \<noteq> []"
  by (simp add: js_def)

lemma trim_examples:
  "trim (js '' Meetup '') = js ''Meetup''" "trim (js ''Monthly meetup'') = js ''Monthly meetup''"
  "trim (js ''Library'') = js ''Library''" "trim (js '' '') = []"
  by (simp_all add: trim_def js_def isWhiteSpace_def)

lemma meetup_form_created:
  assumes "start \<noteq> []" and "StringToNumber cap = Fin q" and "1 \<le> q" and "q \<le> 5000" and "cap \<noteq> []"
  shows "post_events_new (meetup_form start cap) two_users_db (Some alice_session) =
           (Redirect_event 1, created start q)"
  using assms
  by (simp add: post_events_new_cases meetup_form_def orEmpty_def falsy_def trim_examples
        capacity_of_def created_def two_users_db_def alice_session_def js_Cons_nonempty)

lemma meetup_form_refused:
  assumes "start \<noteq> []" and "capacity_refused (StringToNumber cap)" and "cap \<noteq> []"
  shows "post_events_new (meetup_form start cap) two_users_db (Some alice_session) =
           (Render_new_event (Some Capacity_must_be_1_5000), two_users_db)"
  using assms
  by (simp add: post_events_new_def Let_def meetup_form_def orEmpty_def falsy_def trim_examples
        capacity_of_def alice_session_def js_Cons_nonempty)

text \<open>
  C3.  The handler evaluated on the form of the example with the capacity fields
  \<^verbatim>\<open>0\<close>, \<^verbatim>\<open>5001\<close>, \<^verbatim>\<open>abc\<close>, \<^verbatim>\<open>1\<close>, \<^verbatim>\<open>5000\<close> and \<^verbatim>\<open>2.5\<close>: the first three
  are refused with "Capacity must be 1-5000.", the next two create the event, and so
  does \<^verbatim>\<open>2.5\<close>, which is no integer: the check is \<^verbatim>\<open>Number.isFinite\<close> and the two bounds,
  and the event is stored with the capacity 5/2.
\<close>

theorem capacity_inputs_evaluated:
  "post_events_new (meetup_form (js ''2024-05-01T18:00'') (js ''0'')) two_users_db (Some alice_session) =
     (Render_new_event (Some Capacity_must_be_1_5000), two_users_db)
   \<and> post_events_new (meetup_form (js ''2024-05-01T18:00'') (js ''5001'')) two_users_db (Some alice_session) =
     (Render_new_event (Some Capacity_must_be_1_5000), two_users_db)
   \<and> post_events_new (meetup_form (js ''2024-05-01T18:00'') (js ''abc'')) two_users_db (Some alice_session) =
     (Render_new_event (Some Capacity_must_be_1_5000), two_users_db)
   \<and> post_events_new (meetup_form (js ''2024-05-01T18:00'') (js ''1'')) two_users_db (Some alice_session) =
     (Redirect_event 1, created (js ''2024-05-01T18:00'') 1)
   \<and> post_events_new (meetup_form (js ''2024-05-01T18:00'') (js ''5000'')) two_users_db (Some alice_session) =
     (Redirect_event 1, created (js ''2024-05-01T18:00'') 5000)
   \<and> post_events_new (meetup_form (js ''2024-05-01T18:00'') (js ''2.5'')) two_users_db (Some alice_session) =
     (Redirect_event 1, created (js ''2024-05-01T18:00'') (5 / 2))"
proof -
  have start: "js ''2024-05-01T18:00'' \<noteq> []"
    by (rule js_Cons_nonempty)
  have refused: "capacity_refused (StringToNumber (js ''0''))"
                "capacity_refused (StringToNumber (js ''5001''))"
                "capacity_refused (StringToNumber (js ''abc''))"
    by (simp_all add: Number_0 Number_5001 Number_abc capacity_refused_def isFinite_def js_lt_def js_gt_def)
  show ?thesis
    using meetup_form_refused[OF start refused(1) js_Cons_nonempty]
          meetup_form_refused[OF start refused(2) js_Cons_nonempty]
          meetup_form_refused[OF start refused(3) js_Cons_nonempty]
          meetup_form_created[OF start Number_1 _ _ js_Cons_nonempty]
          meetup_form_created[OF start Number_5000 _ _ js_Cons_nonempty]
          meetup_form_created[OF start Number_2_5 _ _ js_Cons_nonempty]
    by simp
qed

text \<open>
  C4.  The claim fails for the start field: a start of one space is empty after
  trimming, yet the event is created, and the start is stored as it came.
\<close>

theorem blank_start_counterexample:
  "trim (js '' '') = []
   \<and> post_events_new (meetup_form (js '' '') (js ''1'')) two_users_db (Some alice_session) =
       (Redirect_event 1, created (js '' '') 1)"
  using meetup_form_created[OF js_Cons_nonempty Number_1 _ _ js_Cons_nonempty, of "CHR '' ''" "[]"]
  by (simp add: trim_examples)

text \<open>
  C4, amended.  The handler answers "Fill all required fields." and leaves the database
  as it was whenever the title, the description or the location is empty after trimming,
  or the start is absent or the empty string.  An event it creates holds the trimmed
  title, description and location, and the start as it was sent.
\<close>

theorem required_fields:
  "(trim (orEmpty (body_title b)) = [] \<or> trim (orEmpty (body_description b)) = [] \<or>
    trim (orEmpty (body_location b)) = [] \<or> body_starts_at b = None \<or> body_starts_at b = Some []
      \<longrightarrow> post_events_new b d (Some su) = (Render_new_event (Some Fill_all_required_fields), d))
   \<and> (\<forall>i d'. post_events_new b d (Some su) = (Redirect_event i, d') \<longrightarrow>
         (\<exists>c. events d' =
                events d @
                [\<lparr>eid = i, host_user_id = sid su,
                  title = trim (orEmpty (body_title b)),
                  description = trim (orEmpty (body_description b)),
                  location = trim (orEmpty (body_location b)),
                  starts_at = orEmpty (body_starts_at b), capacity = c\<rparr>]))"
proof (intro conjI impI allI)
  assume "trim (orEmpty (body_title b)) = [] \<or> trim (orEmpty (body_description b)) = [] \<or>
    trim (orEmpty (body_location b)) = [] \<or> body_starts_at b = None \<or> body_starts_at b = Some []"
  then have "trim (orEmpty (body_title b)) = [] \<or> trim (orEmpty (body_description b)) = [] \<or>
    trim (orEmpty (body_location b)) = [] \<or> falsy (body_starts_at b)"
    by (auto simp: falsy_def)
  then show "post_events_new b d (Some su) = (Render_new_event (Some Fill_all_required_fields), d)"
    by (simp add: post_events_new_cases)
next
  fix i d'
  assume "post_events_new b d (Some su) = (Redirect_event i, d')"
  then show "\<exists>c. events d' =
                events d @
                [\<lparr>eid = i, host_user_id = sid su,
                  title = trim (orEmpty (body_title b)),
                  description = trim (orEmpty (body_description b)),
                  location = trim (orEmpty (body_location b)),
                  starts_at = orEmpty (body_starts_at b), capacity = c\<rparr>]"
    by (auto simp: post_events_new_cases split: if_splits jsnum.splits)
qed

theorem required_fields_witness:
  "post_events_new (meetup_form [] (js ''1'')) two_users_db (Some alice_session) =
     (Render_new_event (Some Fill_all_required_fields), two_users_db)
   \<and> post_events_new (meetup_form (js ''2024-05-01T18:00'') (js ''1'')) two_users_db (Some alice_session) =
     (Redirect_event 1, created (js ''2024-05-01T18:00'') 1)
   \<and> (\<exists>c. events (created (js ''2024-05-01T18:00'') 1) =
            events two_users_db @
            [\<lparr>eid = 1, host_user_id = 1, title = js ''Meetup'', description = js ''Monthly meetup'',
              location = js ''Library'', starts_at = js ''2024-05-01T18:00'', capacity = c\<rparr>])"
proof -
  have created: "post_events_new (meetup_form (js ''2024-05-01T18:00'') (js ''1'')) two_users_db
                   (Some alice_session) =
                 (Redirect_event 1, created (js ''2024-05-01T18:00'') 1)"
    using meetup_form_created[OF js_Cons_nonempty Number_1 _ _ js_Cons_nonempty] by simp
  have empty: "body_starts_at (meetup_form [] (js ''1'')) = Some []"
    by (simp add: meetup_form_def)
  show ?thesis
    using required_fields[of "meetup_form [] (js ''1'')" two_users_db alice_session] empty
          required_fields[of "meetup_form (js ''2024-05-01T18:00'') (js ''1'')" two_users_db alice_session]
          created
    by (auto simp: meetup_form_def orEmpty_def trim_examples alice_session_def)
qed

text \<open>
  C10.  With the capacity field absent or the empty string the handler never answers
  "Capacity must be 1-5000."; when the other fields pass, the event is created with the
  capacity 50.
\<close>

theorem default_capacity:
  assumes "body_capacity b = None \<or> body_capacity b = Some []"
  shows "fst (post_events_new b d s) \<noteq> Render_new_event (Some Capacity_must_be_1_5000)
       \<and> (trim (orEmpty (body_title b)) \<noteq> [] \<and> trim (orEmpty (body_description b)) \<noteq> [] \<and>
          trim (orEmpty (body_location b)) \<noteq> [] \<and> \<not> falsy (body_starts_at b) \<longrightarrow>
            post_events_new b d (Some su) =
              (Redirect_event (Suc (events_seq d)),
               d\<lparr>events := events d @
                    [\<lparr>eid = Suc (events_seq d), host_user_id = sid su,
                      title = trim (orEmpty (body_title b)),
                      description = trim (orEmpty (body_description b)),
                      location = trim (orEmpty (body_location b)),
                      starts_at = orEmpty (body_starts_at b), capacity = 50\<rparr>],
                  events_seq := Suc (events_seq d)\<rparr>))"
proof -
  have fifty: "capacity_of (body_capacity b) = Fin 50"
    using assms by (auto simp: capacity_of_def falsy_def)
  have "fst (post_events_new b d s) \<noteq> Render_new_event (Some Capacity_must_be_1_5000)"
  proof (cases s)
    case None
    then show ?thesis by (simp add: post_events_new_def)
  next
    case (Some su')
    then show ?thesis by (simp add: post_events_new_cases fifty)
  qed
  then show ?thesis
    by (simp add: post_events_new_cases fifty)
qed

theorem default_capacity_witness:
  "post_events_new (no_capacity_form None) two_users_db (Some alice_session) =
     (Redirect_event 1, created (js ''2024-05-01T18:00'') 50)
   \<and> post_events_new (no_capacity_form (Some [])) two_users_db (Some alice_session) =
     (Redirect_event 1, created (js ''2024-05-01T18:00'') 50)"
  using default_capacity[of "no_capacity_form None" two_users_db "Some alice_session" alice_session]
        default_capacity[of "no_capacity_form (Some [])" two_users_db "Some alice_session" alice_session]
  by (simp add: no_capacity_form_def orEmpty_def falsy_def trim_examples js_Cons_nonempty
        created_def two_users_db_def alice_session_def)

subsection \<open>Login and signup\<close>

lemma post_login_cases:
  "post_login P b d s =
     (case find (\<lambda>u. uemail u = normalized P (login_email b)) (users d) of
        None \<Rightarrow> (Render_login (Some Invalid_email_or_password), s)
      | Some u \<Rightarrow>
          if bcrypt_compare P (orEmpty (login_password b)) (password_hash u)
          then (Redirect_home, Some \<lparr>sid = uid u, sname = uname u, semail = uemail u\<rparr>)
          else (Render_login (Some Invalid_email_or_password), s))"
  by (simp add: post_login_def Let_def split: option.splits)

lemma normalized_examples:
  "ascii_lower (trim (js '' Alice@X.com '')) = js ''alice@x.com''"
  "ascii_lower (trim (js ''ALICE@x.com'')) = js ''alice@x.com''"
  "ascii_lower (trim (js ''carol@x.com'')) = js ''carol@x.com''"
  by (simp_all add: ascii_lower_def trim_def js_def isWhiteSpace_def)

lemma normalized_more:
  "ascii_lower (trim (js ''alice@x.com'')) = js ''alice@x.com''"
  "ascii_lower (trim (js ''bob@x.com'')) = js ''bob@x.com''"
  "ascii_lower (trim (js '' Carol@X.com '')) = js ''carol@x.com''"
  "ascii_lower (trim (js ''CAROL@x.com'')) = js ''carol@x.com''"
  "ascii_lower (trim (js ''dave@x.com'')) = js ''dave@x.com''"
  "trim (js ''Alice'') = js ''Alice''" "trim (js ''Bob'') = js ''Bob''" "trim (js ''Carol'') = js ''Carol''"
  "trim (js ''  '') = []"
  by (simp_all add: ascii_lower_def trim_def js_def isWhiteSpace_def)

text \<open>
  C7.  The login redirects home exactly when a user row has the normalised email and
  \<^verbatim>\<open>bcrypt.compare\<close> accepts the password against the hash of that row; then the
  session is that user.  When no row has the email, and when the password does not
  match, the response is the same: the login page with "Invalid email or password.",
  the session as it was.
\<close>

theorem login_outcomes:
  "(fst (post_login P b d s) = Redirect_home \<longleftrightarrow>
      (\<exists>u. find (\<lambda>u. uemail u = normalized P (login_email b)) (users d) = Some u \<and>
           bcrypt_compare P (orEmpty (login_password b)) (password_hash u)))
   \<and> (distinct (map uemail (users d)) \<longrightarrow>
        (fst (post_login P b d s) = Redirect_home \<longleftrightarrow>
           (\<exists>u \<in> set (users d). uemail u = normalized P (login_email b) \<and>
                bcrypt_compare P (orEmpty (login_password b)) (password_hash u))))
   \<and> ((\<forall>u \<in> set (users d). uemail u \<noteq> normalized P (login_email b)) \<longrightarrow>
        post_login P b d s = (Render_login (Some Invalid_email_or_password), s))
   \<and> (\<forall>u. find (\<lambda>u. uemail u = normalized P (login_email b)) (users d) = Some u \<and>
            \<not> bcrypt_compare P (orEmpty (login_password b)) (password_hash u) \<longrightarrow>
        post_login P b d s = (Render_login (Some Invalid_email_or_password), s))
   \<and> (\<forall>u. find (\<lambda>u. uemail u = normalized P (login_email b)) (users d) = Some u \<and>
            bcrypt_compare P (orEmpty (login_password b)) (password_hash u) \<longrightarrow>
        post_login P b d s = (Redirect_home, Some \<lparr>sid = uid u, sname = uname u, semail = uemail u\<rparr>))"
proof (intro conjI impI allI)
  show iff: "fst (post_login P b d s) = Redirect_home \<longleftrightarrow>
      (\<exists>u. find (\<lambda>u. uemail u = normalized P (login_email b)) (users d) = Some u \<and>
           bcrypt_compare P (orEmpty (login_password b)) (password_hash u))"
    by (simp add: post_login_cases split: option.splits)
  show "fst (post_login P b d s) = Redirect_home \<longleftrightarrow>
           (\<exists>u \<in> set (users d). uemail u = normalized P (login_email b) \<and>
                bcrypt_compare P (orEmpty (login_password b)) (password_hash u))"
    if "distinct (map uemail (users d))"
  proof
    assume "fst (post_login P b d s) = Redirect_home"
    with iff show "\<exists>u \<in> set (users d). uemail u = normalized P (login_email b) \<and>
                bcrypt_compare P (orEmpty (login_password b)) (password_hash u)"
      by (auto dest: find_SomeD)
  next
    assume "\<exists>u \<in> set (users d). uemail u = normalized P (login_email b) \<and>
                bcrypt_compare P (orEmpty (login_password b)) (password_hash u)"
    then obtain u where u: "u \<in> set (users d)" "uemail u = normalized P (login_email b)"
      "bcrypt_compare P (orEmpty (login_password b)) (password_hash u)"
      by blast
    have "find (\<lambda>y. uemail y = uemail u) (users d) = Some u"
      using that u(1) by (rule find_Some_distinct)
    with u iff show "fst (post_login P b d s) = Redirect_home"
      by auto
  qed
  show "post_login P b d s = (Render_login (Some Invalid_email_or_password), s)"
    if "\<forall>u \<in> set (users d). uemail u \<noteq> normalized P (login_email b)"
  proof -
    have "find (\<lambda>u. uemail u = normalized P (login_email b)) (users d) = None"
      using that by (simp add: find_None_set)
    then show ?thesis by (simp add: post_login_cases)
  qed
  show "post_login P b d s = (Render_login (Some Invalid_email_or_password), s)"
    if "find (\<lambda>u. uemail u = normalized P (login_email b)) (users d) = Some u \<and>
            \<not> bcrypt_compare P (orEmpty (login_password b)) (password_hash u)" for u
    using that by (simp add: post_login_cases)
  show "post_login P b d s = (Redirect_home, Some \<lparr>sid = uid u, sname = uname u, semail = uemail u\<rparr>)"
    if "find (\<lambda>u. uemail u = normalized P (login_email b)) (users d) = Some u \<and>
            bcrypt_compare P (orEmpty (login_password b)) (password_hash u)" for u
    using that by (simp add: post_login_cases)
qed

theorem login_outcomes_witness:
  "post_login example_platform (login_form (js '' Alice@X.com '') (js ''pw'')) two_users_db None =
     (Redirect_home, Some alice_session)
   \<and> post_login example_platform (login_form (js '' Alice@X.com '') (js ''password'')) two_users_db None =
     (Render_login (Some Invalid_email_or_password), None)
   \<and> post_login example_platform (login_form (js ''carol@x.com'') (js ''pw'')) two_users_db None =
     (Render_login (Some Invalid_email_or_password), None)"
proof -
  have alice: "normalized example_platform (login_email (login_form (js '' Alice@X.com '') p)) =
                 js ''alice@x.com''" for p
    by (simp add: login_form_def orEmpty_def example_platform_def normalized_examples)
  have carol: "normalized example_platform (login_email (login_form (js ''carol@x.com'') p)) =
                 js ''carol@x.com''" for p
    by (simp add: login_form_def orEmpty_def example_platform_def normalized_examples)
  have found: "find (\<lambda>u. uemail u = normalized example_platform (login_email (login_form (js '' Alice@X.com '') p)))
                 (users two_users_db) = Some alice" for p
    unfolding alice by (simp add: example_defs)
  have absent: "\<forall>u \<in> set (users two_users_db).
                  uemail u \<noteq> normalized example_platform (login_email (login_form (js ''carol@x.com'') (js ''pw'')))"
    unfolding carol by (simp add: example_defs js_def)
  have right: "bcrypt_compare example_platform (orEmpty (login_password (login_form e (js ''pw''))))
                 (password_hash alice)" for e
    by (simp add: login_form_def orEmpty_def example_platform_def example_defs js_def)
  have wrong: "\<not> bcrypt_compare example_platform (orEmpty (login_password (login_form e (js ''password''))))
                 (password_hash alice)" for e
    by (simp add: login_form_def orEmpty_def example_platform_def example_defs js_def)
  show ?thesis
    using login_outcomes[of example_platform "login_form (js '' Alice@X.com '') (js ''pw'')" two_users_db None]
          login_outcomes[of example_platform "login_form (js '' Alice@X.com '') (js ''password'')" two_users_db None]
          login_outcomes[of example_platform "login_form (js ''carol@x.com'') (js ''pw'')" two_users_db None]
          found absent right wrong
    by (simp add: example_defs)
qed

lemma post_signup_cases:
  "post_signup P b d s =
     (if trim (orEmpty (body_name b)) = [] \<or> normalized P (body_email b) = [] \<or>
         orEmpty (body_password b) = []
      then (Render_signup (Some Fill_all_fields), d, s)
      else if \<exists>u \<in> set (users d). uemail u = normalized P (body_email b)
      then (Render_signup (Some Email_already_registered), d, s)
      else (Redirect_home,
            d\<lparr>users := users d @
                 [\<lparr>uid = Suc (users_seq d), uname = trim (orEmpty (body_name b)),
                   uemail = normalized P (body_email b),
                   password_hash = bcrypt_hash P (orEmpty (body_password b)) 12\<rparr>],
               users_seq := Suc (users_seq d)\<rparr>,
            Some \<lparr>sid = Suc (users_seq d), sname = trim (orEmpty (body_name b)),
                  semail = normalized P (body_email b)\<rparr>))"
proof (cases "find (\<lambda>u. uemail u = normalized P (body_email b)) (users d)")
  case None
  then have "\<not> (\<exists>u \<in> set (users d). uemail u = normalized P (body_email b))"
    by (simp add: find_None_set)
  with None show ?thesis
    by (simp add: post_signup_def Let_def insert_user_def)
next
  case (Some u)
  then have "\<exists>u \<in> set (users d). uemail u = normalized P (body_email b)"
    by (auto dest: find_SomeD)
  with Some show ?thesis
    by (simp add: post_signup_def Let_def)
qed

lemma emails_ok_signup: "emails_ok P d \<Longrightarrow> emails_ok P (fst (snd (post_signup P b d s)))"
  by (auto simp: post_signup_cases emails_ok_def)

lemma users_post_events_new: "users (snd (post_events_new eb d s)) = users d"
  by (cases s; cases "capacity_of (body_capacity eb)")
     (auto simp: post_events_new_def Let_def insert_event_def)

lemma users_post_events_register: "users (fst (snd (post_events_register E param d s))) = users d"
  by (auto simp: post_events_register_def insert_registration_def Let_def
           split: option.splits if_splits)

lemma reachable_emails_ok: "reachable P d S \<Longrightarrow> emails_ok P d"
proof (induction rule: reachable.induct)
  case reachable_empty
  show ?case by (simp add: emails_ok_def empty_db_def)
next
  case (reachable_forget d S S')
  then show ?case by simp
next
  case (reachable_signup d S s b r d' s')
  from emails_ok_signup[OF reachable_signup.IH, of b s] reachable_signup.hyps(3)
  show ?case by simp
next
  case (reachable_login d S s lb r s')
  then show ?case by simp
next
  case (reachable_new_event d S s eb r d')
  from users_post_events_new[of eb d s] reachable_new_event.hyps(3) reachable_new_event.IH
  show ?case by (simp add: emails_ok_def)
next
  case (reachable_register d S s E param r d' m w)
  from users_post_events_register[of E param d s] reachable_register.hyps(3) reachable_register.IH
  show ?case by (simp add: emails_ok_def)
qed

lemma signup_alice:
  "post_signup example_platform (signup_form (js ''Alice'') (js ''alice@x.com'') (js ''pw'')) empty_db None =
     (Redirect_home, alice_db, Some alice_session)"
  by (simp add: post_signup_cases signup_form_def orEmpty_def example_platform_def normalized_more
        js_Nil_iff js_append empty_db_def example_defs alice_db_def)

lemma signup_bob:
  "post_signup example_platform (signup_form (js ''Bob'') (js ''bob@x.com'') (js ''secret'')) alice_db None =
     (Redirect_home, two_users_db, Some bob_session)"
  by (simp add: post_signup_cases signup_form_def orEmpty_def example_platform_def normalized_more
        js_Nil_iff js_append js_inject example_defs alice_db_def)

lemma signup_carol:
  "post_signup example_platform (signup_form (js ''Carol'') (js '' Carol@X.com '') (js ''hunter2''))
     two_users_db None =
     (Redirect_home, carol_db, Some \<lparr>sid = 3, sname = js ''Carol'', semail = js ''carol@x.com''\<rparr>)"
  by (simp add: post_signup_cases signup_form_def orEmpty_def example_platform_def normalized_more
        js_Nil_iff js_append js_inject example_defs carol_db_def)

lemma reachable_two_users_db: "reachable example_platform two_users_db {bob_session, alice_session}"
proof -
  have none: "None \<in> cookies S" for S
    by (simp add: cookies_def)
  have "reachable example_platform empty_db {}"
    by (rule reachable_empty)
  from reachable_signup[OF this none signup_alice]
  have "reachable example_platform alice_db {alice_session}"
    by simp
  from reachable_signup[OF this none signup_bob]
  show ?thesis
    by simp
qed

lemma reachable_carol_db:
  "reachable example_platform carol_db
     {\<lparr>sid = 3, sname = js ''Carol'', semail = js ''carol@x.com''\<rparr>, bob_session, alice_session}"
proof -
  have "None \<in> cookies {bob_session, alice_session}"
    by (simp add: cookies_def)
  from reachable_signup[OF reachable_two_users_db this signup_carol]
  show ?thesis
    by simp
qed

lemma reachable_created:
  "reachable example_platform (created (js ''2024-05-01T18:00'') 1) {bob_session, alice_session}"
proof -
  have "Some alice_session \<in> cookies {bob_session, alice_session}"
    by (simp add: cookies_def)
  moreover have "post_events_new (meetup_form (js ''2024-05-01T18:00'') (js ''1'')) two_users_db
                   (Some alice_session) =
                 (Redirect_event 1, created (js ''2024-05-01T18:00'') 1)"
    using meetup_form_created[OF js_Cons_nonempty Number_1 _ _ js_Cons_nonempty] by simp
  ultimately show ?thesis
    by (rule reachable_new_event[OF reachable_two_users_db])
qed

text \<open>
  C6.  The signup answers "Fill all fields." when the name is empty after trimming, the
  email is empty after trimming and lower-casing, or the password is empty.  With the
  three present, it answers "Email already registered." when a row holds the normalised
  email.  Otherwise it appends a user whose email is the trimmed, lower-cased input, and
  from then on a signup whose email normalises to the same string, in whatever case it
  is written, is answered "Email already registered.".  In every state the application
  reaches, the stored emails are pairwise different and each is a trimmed, lower-cased
  string.
\<close>

theorem signup_emails:
  "(trim (orEmpty (body_name b)) = [] \<or> normalized P (body_email b) = [] \<or>
    orEmpty (body_password b) = [] \<longrightarrow>
      post_signup P b d s = (Render_signup (Some Fill_all_fields), d, s))
   \<and> (toLowerCase P [] = [] \<and> trim (orEmpty (body_email b)) = [] \<longrightarrow>
        post_signup P b d s = (Render_signup (Some Fill_all_fields), d, s))
   \<and> (trim (orEmpty (body_name b)) \<noteq> [] \<and> normalized P (body_email b) \<noteq> [] \<and>
       orEmpty (body_password b) \<noteq> [] \<and>
       (\<exists>u \<in> set (users d). uemail u = normalized P (body_email b)) \<longrightarrow>
        post_signup P b d s = (Render_signup (Some Email_already_registered), d, s))
   \<and> (\<forall>d' s'. post_signup P b d s = (Redirect_home, d', s') \<longrightarrow>
        users d' =
          users d @
          [\<lparr>uid = Suc (users_seq d), uname = trim (orEmpty (body_name b)),
            uemail = toLowerCase P (trim (orEmpty (body_email b))),
            password_hash = bcrypt_hash P (orEmpty (body_password b)) 12\<rparr>] \<and>
        (\<forall>b2 s2. trim (orEmpty (body_name b2)) \<noteq> [] \<and> orEmpty (body_password b2) \<noteq> [] \<and>
                 normalized P (body_email b2) = normalized P (body_email b) \<longrightarrow>
           post_signup P b2 d' s2 = (Render_signup (Some Email_already_registered), d', s2)))
   \<and> (reachable P d S \<longrightarrow>
        distinct (map uemail (users d)) \<and>
        (\<forall>u \<in> set (users d). \<exists>raw. uemail u = toLowerCase P (trim raw)))"
proof (intro conjI impI allI)
  show "post_signup P b d s = (Render_signup (Some Fill_all_fields), d, s)"
    if "trim (orEmpty (body_name b)) = [] \<or> normalized P (body_email b) = [] \<or>
        orEmpty (body_password b) = []"
    using that by (simp add: post_signup_cases)
  show "post_signup P b d s = (Render_signup (Some Fill_all_fields), d, s)"
    if "toLowerCase P [] = [] \<and> trim (orEmpty (body_email b)) = []"
    using that by (simp add: post_signup_cases)
  show "post_signup P b d s = (Render_signup (Some Email_already_registered), d, s)"
    if "trim (orEmpty (body_name b)) \<noteq> [] \<and> normalized P (body_email b) \<noteq> [] \<and>
       orEmpty (body_password b) \<noteq> [] \<and>
       (\<exists>u \<in> set (users d). uemail u = normalized P (body_email b))"
    using that by (simp add: post_signup_cases)
next
  fix d' s'
  assume ok: "post_signup P b d s = (Redirect_home, d', s')"
  then have valid: "\<not> (trim (orEmpty (body_name b)) = [] \<or> normalized P (body_email b) = [] \<or>
         orEmpty (body_password b) = [])"
    and d': "d' = d\<lparr>users := users d @
                 [\<lparr>uid = Suc (users_seq d), uname = trim (orEmpty (body_name b)),
                   uemail = normalized P (body_email b),
                   password_hash = bcrypt_hash P (orEmpty (body_password b)) 12\<rparr>],
               users_seq := Suc (users_seq d)\<rparr>"
    by (auto simp: post_signup_cases split: if_splits)
  show "users d' =
          users d @
          [\<lparr>uid = Suc (users_seq d), uname = trim (orEmpty (body_name b)),
            uemail = toLowerCase P (trim (orEmpty (body_email b))),
            password_hash = bcrypt_hash P (orEmpty (body_password b)) 12\<rparr>]"
    by (simp add: d')
  fix b2 :: signup_body and s2 :: session
  assume second: "trim (orEmpty (body_name b2)) \<noteq> [] \<and> orEmpty (body_password b2) \<noteq> [] \<and>
                 normalized P (body_email b2) = normalized P (body_email b)"
  with valid have "normalized P (body_email b2) \<noteq> []"
    by simp
  moreover have "\<exists>u \<in> set (users d'). uemail u = normalized P (body_email b2)"
    using second by (simp add: d')
  ultimately show "post_signup P b2 d' s2 = (Render_signup (Some Email_already_registered), d', s2)"
    using second by (simp add: post_signup_cases)
next
  assume "reachable P d S"
  then have "emails_ok P d"
    by (rule reachable_emails_ok)
  then show "distinct (map uemail (users d))"
    and "\<forall>u \<in> set (users d). \<exists>raw. uemail u = toLowerCase P (trim raw)"
    by (simp_all add: emails_ok_def list_all_iff)
qed

theorem signup_emails_witness:
  "post_signup example_platform (signup_form (js ''  '') (js ''dave@x.com'') (js ''pw'')) two_users_db None =
     (Render_signup (Some Fill_all_fields), two_users_db, None)
   \<and> post_signup example_platform (signup_form (js ''Carol'') (js '' Carol@X.com '') (js ''hunter2''))
       two_users_db None =
     (Redirect_home, carol_db, Some \<lparr>sid = 3, sname = js ''Carol'', semail = js ''carol@x.com''\<rparr>)
   \<and> map uemail (users carol_db) = [js ''alice@x.com'', js ''bob@x.com'', js ''carol@x.com'']
   \<and> post_signup example_platform (signup_form (js ''Carol'') (js ''CAROL@x.com'') (js ''other'')) carol_db None =
     (Render_signup (Some Email_already_registered), carol_db, None)
   \<and> reachable example_platform carol_db
       {\<lparr>sid = 3, sname = js ''Carol'', semail = js ''carol@x.com''\<rparr>, bob_session, alice_session}
   \<and> distinct (map uemail (users carol_db))"
proof -
  let ?P = example_platform
  let ?first = "signup_form (js ''Carol'') (js '' Carol@X.com '') (js ''hunter2'')"
  let ?second = "signup_form (js ''Carol'') (js ''CAROL@x.com'') (js ''other'')"
  let ?blank = "signup_form (js ''  '') (js ''dave@x.com'') (js ''pw'')"
  have blank: "trim (orEmpty (body_name ?blank)) = []"
    by (simp add: signup_form_def orEmpty_def normalized_more)
  have same: "trim (orEmpty (body_name ?second)) \<noteq> [] \<and> orEmpty (body_password ?second) \<noteq> [] \<and>
              normalized ?P (body_email ?second) = normalized ?P (body_email ?first)"
    by (simp add: signup_form_def orEmpty_def example_platform_def normalized_more js_Nil_iff)
  have emails: "map uemail (users carol_db) = [js ''alice@x.com'', js ''bob@x.com'', js ''carol@x.com'']"
    by (simp add: carol_db_def example_defs)
  have r1: "post_signup ?P ?blank two_users_db None =
              (Render_signup (Some Fill_all_fields), two_users_db, None)"
    using signup_emails[of ?blank ?P two_users_db None] blank by blast
  have r4: "post_signup ?P ?second carol_db None =
              (Render_signup (Some Email_already_registered), carol_db, None)"
    using signup_emails[of ?first ?P two_users_db None] signup_carol same by blast
  have r5: "distinct (map uemail (users carol_db))"
    using signup_emails[of ?first ?P carol_db None
            "{\<lparr>sid = 3, sname = js ''Carol'', semail = js ''carol@x.com''\<rparr>, bob_session, alice_session}"]
          reachable_carol_db
    by blast
  show ?thesis
    using r1 signup_carol emails r4 reachable_carol_db r5 by (intro conjI)
qed

subsection \<open>Sessions and hosts\<close>

lemma hosted_mono: "hosted d e \<Longrightarrow> set (users d) \<subseteq> set (users d') \<Longrightarrow> hosted d' e"
  by (auto simp: hosted_def list_ex_iff)

lemma events_post_events_register: "events (fst (snd (post_events_register E param d s))) = events d"
  by (auto simp: post_events_register_def insert_registration_def Let_def
           split: option.splits if_splits)

lemma sessions_ok_signup:
  assumes "sessions_ok d S" and "s \<in> cookies S" and "post_signup P b d s = (r, d', s')"
  shows "sessions_ok d' (S \<union> set_option s')"
proof -
  consider "d' = d" "s' = s"
    | "users d' = users d @ [\<lparr>uid = Suc (users_seq d), uname = trim (orEmpty (body_name b)),
                   uemail = normalized P (body_email b),
                   password_hash = bcrypt_hash P (orEmpty (body_password b)) 12\<rparr>]"
      "events d' = events d"
      "s' = Some \<lparr>sid = Suc (users_seq d), sname = trim (orEmpty (body_name b)),
                  semail = normalized P (body_email b)\<rparr>"
    using assms(3) by (auto simp: post_signup_cases split: if_splits)
  then show ?thesis
  proof cases
    case 1
    with assms(1,2) show ?thesis
      by (auto simp: sessions_ok_def cookies_def)
  next
    case 2
    have sub: "set (users d) \<subseteq> set (users d')"
      using 2(1) by auto
    have "list_all (hosted d') (events d')"
      using assms(1) 2(2) hosted_mono[OF _ sub] by (auto simp: sessions_ok_def list_all_iff)
    moreover have "\<forall>su \<in> S \<union> set_option s'. \<exists>u \<in> set (users d'). uid u = sid su"
      using assms(1) 2(1,3) by (auto simp: sessions_ok_def)
    ultimately show ?thesis
      by (simp add: sessions_ok_def)
  qed
qed

lemma sessions_ok_login:
  assumes "sessions_ok d S" and "s \<in> cookies S" and "post_login P lb d s = (r, s')"
  shows "sessions_ok d (S \<union> set_option s')"
proof -
  consider "s' = s"
    | u where "u \<in> set (users d)" "s' = Some \<lparr>sid = uid u, sname = uname u, semail = uemail u\<rparr>"
    using assms(3) by (auto simp: post_login_cases split: option.splits if_splits dest: find_SomeD)
  then show ?thesis
  proof cases
    case 1
    with assms(1,2) show ?thesis
      by (auto simp: sessions_ok_def cookies_def)
  next
    case 2
    with assms(1) show ?thesis
      by (auto simp: sessions_ok_def)
  qed
qed

lemma sessions_ok_new_event:
  assumes "sessions_ok d S" and "s \<in> cookies S" and "post_events_new eb d s = (r, d')"
  shows "sessions_ok d' S"
proof (cases s)
  case None
  with assms show ?thesis by (simp add: post_events_new_def)
next
  case (Some su)
  then have su: "\<exists>u \<in> set (users d). uid u = sid su"
    using assms(1,2) by (auto simp: sessions_ok_def cookies_def)
  consider "d' = d"
    | e where "users d' = users d" "events d' = events d @ [e]" "host_user_id e = sid su"
    using assms(3) Some
    by (auto simp: post_events_new_cases split: if_splits jsnum.splits)
  then show ?thesis
  proof cases
    case 1
    with assms(1) show ?thesis by simp
  next
    case 2
    have "hosted d' e"
      using su 2(1,3) by (auto simp: hosted_def list_ex_iff)
    moreover have "list_all (hosted d') (events d)"
      using assms(1) 2(1) by (auto simp: sessions_ok_def list_all_iff hosted_def)
    ultimately show ?thesis
      using assms(1) 2(1,2) by (simp add: sessions_ok_def)
  qed
qed

lemma sessions_ok_register:
  assumes "sessions_ok d S" and "post_events_register E param d s = (r, d', m, w)"
  shows "sessions_ok d' S"
proof -
  have "users d' = users d" "events d' = events d"
    using users_post_events_register[of E param d s] events_post_events_register[of E param d s] assms(2)
    by simp_all
  with assms(1) show ?thesis
    by (simp add: sessions_ok_def list_all_iff hosted_def)
qed

lemma reachable_sessions_ok: "reachable P d S \<Longrightarrow> sessions_ok d S"
proof (induction rule: reachable.induct)
  case reachable_empty
  show ?case by (simp add: sessions_ok_def empty_db_def)
next
  case (reachable_forget d S S')
  then show ?case by (auto simp: sessions_ok_def)
next
  case (reachable_signup d S s b r d' s')
  then show ?case by (simp add: sessions_ok_signup)
next
  case (reachable_login d S s lb r s')
  then show ?case by (simp add: sessions_ok_login)
next
  case (reachable_new_event d S s eb r d')
  then show ?case by (simp add: sessions_ok_new_event)
next
  case (reachable_register d S s E param r d' m w)
  then show ?case by (simp add: sessions_ok_register)
qed

subsection \<open>The front page\<close>

lemma join_host_ev: "join_host d e = Some row \<Longrightarrow> ev row = e"
  by (auto simp: join_host_def split: option.splits)

lemma map_filter_join_host:
  "list_all (hosted d) es \<Longrightarrow> map ev (List.map_filter (join_host d) es) = es"
proof (induction es)
  case Nil
  show ?case by (simp add: List.map_filter_simps)
next
  case (Cons e es)
  then obtain row where "join_host d e = Some row" "ev row = e"
    using join_host_hosted[of d e] by auto
  with Cons show ?case by (simp add: List.map_filter_simps)
qed

lemma ev_joined_events: "list_all (hosted d) (events d) \<Longrightarrow> map ev (joined_events d) = events d"
  by (simp add: joined_events_def map_filter_join_host)

lemma sorted_listEvents: "sorted (map (order_key P) (listEvents P d))"
  by (simp add: listEvents_def)

lemma mset_listEvents: "mset (listEvents P d) = mset (joined_events d)"
  by (simp add: listEvents_def)

lemma three_sorted:
  fixes f :: "'a \<Rightarrow> 'k::linorder"
  assumes "sorted (map f xs)" and "mset xs = {#a, b, c#}" and "f a < f b" and "f b < f c"
  shows "xs = [a, b, c]"
proof -
  have m: "mset xs = mset [a, b, c]"
    using assms(2) by simp
  have s: "set xs = set [a, b, c]"
    using m by (rule mset_eq_setD)
  have "mset (map f xs) = mset (map f [a, b, c])"
    using m by (simp only: mset_map)
  then have d: "distinct (map f xs) \<longleftrightarrow> distinct (map f [a, b, c])"
    by (rule mset_eq_imp_distinct_iff)
  have d3: "distinct (map f [a, b, c])" and s3: "sorted (map f [a, b, c])"
    using assms(3,4) by auto
  have inj: "inj_on f (set xs \<union> set [a, b, c])"
    unfolding s using assms(3,4) by (auto simp: inj_on_def)
  show ?thesis
    using inj assms(1) d d3 s3 s by (intro map_sorted_distinct_set_unique[of f xs "[a, b, c]"]) simp_all
qed

lemma listEvents_three:
  assumes "list_all (hosted d) (events d)" and "mset (events d) = {#e1, e2, e3#}"
      and "datetime P (starts_at e1) < datetime P (starts_at e2)"
      and "datetime P (starts_at e2) < datetime P (starts_at e3)"
  shows "map ev (listEvents P d) = [e1, e2, e3]"
proof -
  have "mset (map ev (listEvents P d)) = mset (map ev (joined_events d))"
    by (simp only: mset_map mset_listEvents)
  then have m: "mset (map ev (listEvents P d)) = {#e1, e2, e3#}"
    using assms(1,2) by (simp add: ev_joined_events)
  have s: "sorted (map (\<lambda>e. datetime P (starts_at e)) (map ev (listEvents P d)))"
  proof -
    have "order_key P = (\<lambda>r. datetime P (starts_at (ev r)))"
      by (rule ext) (simp add: order_key_def)
    with sorted_listEvents[of P d] show ?thesis
      by (simp add: comp_def)
  qed
  show ?thesis
    using s m assms(3,4) by (rule three_sorted)
qed

lemma day_keys:
  "datetime example_platform (starts_at breakfast) = Some (js ''2024-05-01 09:00:00'')"
  "datetime example_platform (starts_at standup) = Some (js ''2024-05-01 10:00:00'')"
  "datetime example_platform (starts_at evening) = Some (js ''2024-05-01 18:00:00'')"
  by (simp_all add: example_platform_def example_datetime_def breakfast_def standup_def evening_def
        js_inject)

lemma day_order:
  "js ''2024-05-01 09:00:00'' < js ''2024-05-01 10:00:00''"
  "js ''2024-05-01 10:00:00'' < js ''2024-05-01 18:00:00''"
  "js ''2024-05-01 18:00'' < js ''2024-05-01T09:00''"
  "js ''2024-05-01T09:00'' < js ''2024-05-01T10:00''"
  by (simp_all add: js_def)

lemma day_hosted: "list_all (hosted day_db) (events day_db)"
  by (simp add: hosted_def day_db_def breakfast_def standup_def evening_def alice_def bob_def)

lemma day_events: "mset (events day_db) = {#breakfast, standup, evening#}"
  by (simp add: day_db_def)

text \<open>
  C5.  The claim fails for the order of the stored strings.  The three events of the
  example have the starts \<^verbatim>\<open>2024-05-01 18:00\<close>, \<^verbatim>\<open>2024-05-01T09:00\<close> and
  \<^verbatim>\<open>2024-05-01T10:00\<close>, in this order as strings (a space is below \<^verbatim>\<open>T\<close>); the front
  page lists them by \<^verbatim>\<open>datetime(starts_at)\<close>, the evening talk last.
\<close>

theorem list_events_counterexample:
  "starts_at evening < starts_at breakfast \<and> starts_at breakfast < starts_at standup
   \<and> map ev (listEvents example_platform day_db) = [breakfast, standup, evening]
   \<and> map (\<lambda>r. starts_at (ev r)) (listEvents example_platform day_db) =
       [js ''2024-05-01T09:00'', js ''2024-05-01T10:00'', js ''2024-05-01 18:00'']"
proof -
  have order: "map ev (listEvents example_platform day_db) = [breakfast, standup, evening]"
    using day_hosted day_events by (rule listEvents_three) (simp_all add: day_keys day_order)
  have "map (\<lambda>r. starts_at (ev r)) (listEvents example_platform day_db) =
          map starts_at (map ev (listEvents example_platform day_db))"
    by (simp add: comp_def)
  then have "map (\<lambda>r. starts_at (ev r)) (listEvents example_platform day_db) =
       [js ''2024-05-01T09:00'', js ''2024-05-01T10:00'', js ''2024-05-01 18:00'']"
    unfolding order by (simp add: breakfast_def standup_def evening_def)
  with order show ?thesis
    by (simp add: day_order breakfast_def standup_def evening_def)
qed

text \<open>
  C5, amended.  The front page lists the events in ascending order of the text
  \<^verbatim>\<open>datetime(starts_at)\<close> (\<^verbatim>\<open>NULL\<close>, for a start SQLite cannot read as a time, first).
  In every state the application reaches it lists every event, once.  Three events
  whose \<^verbatim>\<open>datetime\<close> texts are strictly increasing are listed in that order, in
  whatever order they were inserted.
\<close>

theorem list_events_order:
  "sorted (map (\<lambda>r. datetime P (starts_at (ev r))) (listEvents P d))
   \<and> (reachable P d S \<longrightarrow> mset (map ev (listEvents P d)) = mset (events d))
   \<and> (list_all (hosted d) (events d) \<and> mset (events d) = {#e1, e2, e3#} \<and>
       datetime P (starts_at e1) < datetime P (starts_at e2) \<and>
       datetime P (starts_at e2) < datetime P (starts_at e3) \<longrightarrow>
         map ev (listEvents P d) = [e1, e2, e3])"
proof (intro conjI impI)
  have "order_key P = (\<lambda>r. datetime P (starts_at (ev r)))"
    by (rule ext) (simp add: order_key_def)
  with sorted_listEvents[of P d]
  show "sorted (map (\<lambda>r. datetime P (starts_at (ev r))) (listEvents P d))"
    by simp
next
  assume "reachable P d S"
  then have "list_all (hosted d) (events d)"
    using reachable_sessions_ok[of P d S] by (simp add: sessions_ok_def)
  then have "map ev (joined_events d) = events d"
    by (rule ev_joined_events)
  moreover have "mset (map ev (listEvents P d)) = mset (map ev (joined_events d))"
    by (simp only: mset_map mset_listEvents)
  ultimately show "mset (map ev (listEvents P d)) = mset (events d)"
    by simp
next
  assume "list_all (hosted d) (events d) \<and> mset (events d) = {#e1, e2, e3#} \<and>
       datetime P (starts_at e1) < datetime P (starts_at e2) \<and>
       datetime P (starts_at e2) < datetime P (starts_at e3)"
  then show "map ev (listEvents P d) = [e1, e2, e3]"
    by (intro listEvents_three) simp_all
qed

theorem list_events_order_witness:
  "list_all (hosted day_db) (events day_db) \<and> events day_db = [evening, breakfast, standup]
   \<and> datetime example_platform (starts_at breakfast) < datetime example_platform (starts_at standup)
   \<and> datetime example_platform (starts_at standup) < datetime example_platform (starts_at evening)
   \<and> map ev (listEvents example_platform day_db) = [breakfast, standup, evening]
   \<and> reachable example_platform (created (js ''2024-05-01T18:00'') 1) {bob_session, alice_session}
   \<and> mset (map ev (listEvents example_platform (created (js ''2024-05-01T18:00'') 1))) =
       mset (events (created (js ''2024-05-01T18:00'') 1))"
proof -
  have keys: "datetime example_platform (starts_at breakfast) < datetime example_platform (starts_at standup)"
             "datetime example_platform (starts_at standup) < datetime example_platform (starts_at evening)"
    by (simp_all add: day_keys day_order)
  have order: "map ev (listEvents example_platform day_db) = [breakfast, standup, evening]"
    using list_events_order[of example_platform day_db "{}" breakfast standup evening]
          day_hosted day_events keys
    by blast
  have all: "mset (map ev (listEvents example_platform (created (js ''2024-05-01T18:00'') 1))) =
               mset (events (created (js ''2024-05-01T18:00'') 1))"
    using list_events_order[of example_platform "created (js ''2024-05-01T18:00'') 1"
            "{bob_session, alice_session}"]
          reachable_created
    by blast
  have events: "events day_db = [evening, breakfast, standup]"
    by (simp add: day_db_def)
  show ?thesis
    using day_hosted events keys order reachable_created all by (intro conjI)
qed

end
